theory Spec2Isabelle
  imports Main "HOL-Library.Sublist" "HOL-Library.Word" "HOL-Library.Multiset"
begin

section \<open>Shared model types\<close>

text \<open>
  \<^verbatim>\<open>PracticeEvaluationResult\<close> is the tri-state result every practice returns
  (\<^verbatim>\<open>PracticeEvaluationResult.practicing\<close>, \<^verbatim>\<open>.notPracticing\<close>, \<^verbatim>\<open>.unknown\<close> in the sources).
\<close>

datatype PracticeEvaluationResult = practicing | notPracticing | unknown

text \<open>
  A JavaScript string is a sequence of 16-bit code units. File contents, on which
  \<^verbatim>\<open>split\<close>, \<^verbatim>\<open>trim\<close> and \<^verbatim>\<open>startsWith\<close> work, are modelled as such; \<open>lit\<close> embeds an
  ASCII literal of the source.
\<close>

type_synonym js_string = "16 word list"

definition lit :: "string \<Rightarrow> js_string" where
  "lit s = map of_char s"

section \<open>JsGitignoreCorrectlySetPractice\<close>

subsection \<open>String operations used by the practice\<close>

text \<open>
  \<^verbatim>\<open>String.prototype.trim\<close> removes the code units of WhiteSpace and LineTerminator from both
  ends: TAB, LF, VT, FF, CR, SP, NBSP, U+1680, U+2000..U+200A, LS, PS, U+202F, U+205F,
  U+3000 and U+FEFF.
\<close>

definition isWhiteSpace :: "16 word \<Rightarrow> bool" where
  "isWhiteSpace c \<longleftrightarrow> c \<in> {0x0009, 0x000A, 0x000B, 0x000C, 0x000D, 0x0020, 0x00A0, 0x1680,
     0x2000, 0x2001, 0x2002, 0x2003, 0x2004, 0x2005, 0x2006, 0x2007, 0x2008, 0x2009, 0x200A,
     0x2028, 0x2029, 0x202F, 0x205F, 0x3000, 0xFEFF}"

definition trim :: "js_string \<Rightarrow> js_string" where
  "trim s = rev (dropWhile isWhiteSpace (rev (dropWhile isWhiteSpace s)))"

text \<open>
  \<^verbatim>\<open>s.split(/\r?\n/)\<close>: the regular expression is tried at every index from the left; it
  matches CR LF (two code units) or LF alone, and a CR that is not followed by LF stays in
  its piece. Empty pieces are kept, and the empty string yields one empty piece.
\<close>

fun split_newline :: "js_string \<Rightarrow> js_string list" where
  "split_newline [] = [[]]"
| "split_newline (c # cs) =
     (if c = 0x000D \<and> cs \<noteq> [] \<and> hd cs = 0x000A then [] # split_newline (tl cs)
      else if c = 0x000A then [] # split_newline cs
      else (case split_newline cs of [] \<Rightarrow> [[c]] | l # ls \<Rightarrow> (c # l) # ls))"

text \<open>\<^verbatim>\<open>content.startsWith('#')\<close>, on the piece as it is (not trimmed).\<close>

definition startsWith :: "js_string \<Rightarrow> js_string \<Rightarrow> bool" where
  "startsWith s p = prefix p s"

text \<open>
  \<^verbatim>\<open>/literal/.test(value)\<close> for the five expressions of the practice, each of which is a
  literal once \<^verbatim>\<open>\.\<close> is unescaped: the literal is tried at every index from the left.
\<close>

fun test :: "js_string \<Rightarrow> js_string \<Rightarrow> bool" where
  "test pat [] = (pat = [])"
| "test pat (c # cs) = (prefix pat (c # cs) \<or> test pat cs)"

text \<open>
  JavaScript truthiness of the value \<^verbatim>\<open>Array.prototype.find\<close> returns: \<^verbatim>\<open>undefined\<close> and the
  empty string are falsy, every other string is truthy.
\<close>

fun truthy :: "js_string option \<Rightarrow> bool" where
  "truthy None = False"
| "truthy (Some s) = (s \<noteq> [])"

subsection \<open>The practice context\<close>

text \<open>
  \<^verbatim>\<open>readFile\<close> of a file inspector resolves with the file's content or rejects (\<open>Inl\<close>, with
  the error's message). \<^verbatim>\<open>ctx.root.fileInspector\<close> and \<^verbatim>\<open>ctx.fileInspector\<close> may each be
  \<^verbatim>\<open>undefined\<close>.
\<close>

record FileInspector =
  readFile :: "string \<Rightarrow> string + js_string"

record PracticeContextRoot =
  root_fileInspector :: "FileInspector option"

record PracticeContext =
  fileInspector :: "FileInspector option"
  root :: PracticeContextRoot

subsection \<open>evaluate\<close>

definition parseGitignore :: "js_string \<Rightarrow> js_string list" where
  "parseGitignore gitignoreFile =
     filter (\<lambda>content. trim content \<noteq> [] \<and> \<not> startsWith content (lit ''#''))
       (split_newline gitignoreFile)"

text \<open>The decision taken on the parsed lines (lines 34 to 49 of the practice).\<close>

definition gitignoreVerdict :: "js_string list \<Rightarrow> PracticeEvaluationResult" where
  "gitignoreVerdict parsedGitignore =
     (let packageJsonRegex = find (\<lambda>v. test (lit ''package-lock.json'') v) parsedGitignore;
          yarnLockRegex = find (\<lambda>v. test (lit ''yarn.lock'') v) parsedGitignore;
          nodeModulesRegex = find (\<lambda>v. test (lit ''node_modules'') v) parsedGitignore;
          coverageRegex = find (\<lambda>v. test (lit ''coverage'') v) parsedGitignore;
          errorLogRegex = find (\<lambda>v. test (lit ''.log'') v) parsedGitignore;
          exactlyOneLockfile =
            ((truthy packageJsonRegex \<and> \<not> truthy yarnLockRegex) \<or>
             (\<not> truthy packageJsonRegex \<and> truthy yarnLockRegex))
      in if exactlyOneLockfile \<and> truthy nodeModulesRegex \<and> truthy errorLogRegex \<and>
            truthy coverageRegex
         then practicing else notPracticing)"

text \<open>
  \<^verbatim>\<open>JsGitignoreCorrectlySetPractice.evaluate\<close>. The first component of the result lists the
  paths handed to \<^verbatim>\<open>readFile\<close>, in order; the second is the value the promise resolves with,
  or \<open>Inl\<close> when \<^verbatim>\<open>readFile\<close> rejects (nothing in \<^verbatim>\<open>evaluate\<close> catches it).
\<close>

definition JsGitignoreCorrectlySet_evaluate ::
    "PracticeContext \<Rightarrow> string list \<times> (string + PracticeEvaluationResult)" where
  "JsGitignoreCorrectlySet_evaluate ctx =
     (case root_fileInspector (root ctx) of
        None \<Rightarrow> ([], Inr unknown)
      | Some inspector \<Rightarrow>
          (case readFile inspector ''.gitignore'' of
             Inl err \<Rightarrow> ([''.gitignore''], Inl err)
           | Inr content \<Rightarrow>
               ([''.gitignore''], Inr (gitignoreVerdict (parseGitignore content)))))"

subsection \<open>What a correctly set .gitignore is\<close>

text \<open>
  The reading of a \<^verbatim>\<open>.gitignore\<close> the practice is held against, stated on the content itself
  and with none of the functions above.

  A code unit is blank when trimming removes it: TAB to CR (U+0009 to U+000D), SP, NBSP,
  U+1680, U+2000 to U+200A, LS, PS, U+202F, U+205F, U+3000 and U+FEFF.
\<close>

definition blankCodeUnit :: "16 word \<Rightarrow> bool" where
  "blankCodeUnit c \<longleftrightarrow>
     (0x0009 \<le> c \<and> c \<le> 0x000D) \<or> c = 0x0020 \<or> c = 0x00A0 \<or> c = 0x1680 \<or>
     (0x2000 \<le> c \<and> c \<le> 0x200A) \<or> c = 0x2028 \<or> c = 0x2029 \<or> c = 0x202F \<or>
     c = 0x205F \<or> c = 0x3000 \<or> c = 0xFEFF"

text \<open>
  A line ends where the content ends or where a line break follows: CR LF, or LF alone. A
  CR right before an LF is part of the line break, so a stretch that ends in CR does not end
  a line when LF follows.
\<close>

definition endsLine :: "js_string \<Rightarrow> js_string \<Rightarrow> bool" where
  "endsLine l after \<longleftrightarrow>
     after = [] \<or> (\<exists>rest. after = 0x000D # 0x000A # rest) \<or>
     ((\<exists>rest. after = 0x000A # rest) \<and> (l = [] \<or> last l \<noteq> 0x000D))"

text \<open>
  A line of a content is a stretch without LF that starts where the content starts or right
  after an LF, and ends a line.
\<close>

definition lineOf :: "js_string \<Rightarrow> js_string \<Rightarrow> bool" where
  "lineOf content l \<longleftrightarrow>
     (\<exists>before after. content = before @ l @ after \<and>
        (before = [] \<or> last before = 0x000A) \<and> 0x000A \<notin> set l \<and> endsLine l after)"

text \<open>
  The lines that count are those that are not blank after trimming, that is, hold a code
  unit that is not blank, and do not have \<open>#\<close> (U+0023) as their first code unit.
\<close>

definition consideredLine :: "js_string \<Rightarrow> js_string \<Rightarrow> bool" where
  "consideredLine content l \<longleftrightarrow>
     lineOf content l \<and> (\<exists>c \<in> set l. \<not> blankCodeUnit c) \<and> \<not> (\<exists>rest. l = 0x0023 # rest)"

text \<open>A pattern is listed when it occurs in one of the lines that count.\<close>

definition listed :: "string \<Rightarrow> js_string \<Rightarrow> bool" where
  "listed pat content \<longleftrightarrow> (\<exists>l. consideredLine content l \<and> sublist (lit pat) l)"

definition gitignoreCorrectlySet :: "js_string \<Rightarrow> bool" where
  "gitignoreCorrectlySet content \<longleftrightarrow>
     (listed ''package-lock.json'' content \<noteq> listed ''yarn.lock'' content) \<and>
     listed ''node_modules'' content \<and> listed ''coverage'' content \<and> listed ''.log'' content"

text \<open>
  Inputs of the examples: a file inspector over one \<^verbatim>\<open>.gitignore\<close>, and three contents, the
  last one a single comment line that holds every pattern.
\<close>

definition inspectorOf :: "js_string \<Rightarrow> FileInspector" where
  "inspectorOf content =
     \<lparr> readFile = (\<lambda>p. if p = ''.gitignore'' then Inr content else Inl ''ENOENT'') \<rparr>"

definition gitignoreYarn :: js_string where
  "gitignoreYarn =
     lit ''# deps'' @ [0x000D, 0x000A] @ lit ''/node_modules'' @ [0x000A] @ [0x000A] @
     lit ''coverage'' @ [0x000A] @ lit ''*.log'' @ [0x000A] @ lit ''yarn.lock'' @ [0x000A]"

definition gitignoreBoth :: js_string where
  "gitignoreBoth = gitignoreYarn @ lit ''package-lock.json''"

definition gitignoreCommented :: js_string where
  "gitignoreCommented = lit ''#node_modules coverage .log yarn.lock''"

section \<open>Scanner\<close>

subsection \<open>Practices, overrides and records\<close>

text \<open>
  Modelled from the spec: the members of the enum \<^verbatim>\<open>PracticeImpact\<close>. Its declaration
  (\<^verbatim>\<open>../model\<close>) is not among the sources, which use \<^verbatim>\<open>PracticeImpact.high\<close> only; the spec
  names an ordered enum low/medium/high.
\<close>

datatype PracticeImpact = low | medium | high

text \<open>
  The metadata the \<^verbatim>\<open>@DxPractice\<close> decorator attaches to a practice. \<^verbatim>\<open>dependsOn\<close> is
  optional, as are its two keys; an absent key is the empty list.
\<close>

record PracticeMetadata =
  id' :: string
  name :: string
  impact :: PracticeImpact
  suggestion :: string
  reportOnlyOnce :: bool
  url :: string
  dependsOn_practicing :: "string list"
  dependsOn_notPracticing :: "string list"

text \<open>
  Modelled from the spec: the field \<open>enabled\<close>, the on/off toggle of the override query
  (\<^verbatim>\<open>getOverride(practiceId, componentId) -> {enabled, impactOverride}\<close>); the configuration
  provider is not among the sources, and the scanner's own code never reads the toggle.

  The other field is the one the scanner reads of what
  \<^verbatim>\<open>configProvider.getOverriddenPractice(id)\<close> returns, \<^verbatim>\<open>config.impact\<close>. It is read by
  truthiness: \<open>None\<close> stands for \<^verbatim>\<open>undefined\<close> (no impact is overridden), and an overridden
  impact is a member of the enum, which is truthy.
\<close>

record PracticeConfig =
  config_impact :: "PracticeImpact option"
  enabled :: bool

text \<open>
  \<^verbatim>\<open>IPracticeWithMetadata\<close>: a practice of the catalog. \<open>'c\<close> is the practice context of a
  component. \<^verbatim>\<open>evaluate\<close> is handed the practice context and the practice's override
  (\<^verbatim>\<open>{ ...practiceContext, config: practiceConfig }\<close>); it resolves with a result (\<open>Inr\<close>)
  or throws (\<open>Inl\<close>, with the error rendered as a string). Both capabilities are taken to
  return, and to depend on nothing but what they are handed.
\<close>

record 'c IPracticeWithMetadata =
  getMetadata :: PracticeMetadata
  isApplicable :: "'c \<Rightarrow> bool"
  evaluate :: "'c \<Rightarrow> PracticeConfig \<Rightarrow> string + PracticeEvaluationResult"

text \<open>
  \<^verbatim>\<open>ProjectComponentContext\<close>: the component \<open>'p\<close>, its practice context and its
  configuration provider. A \<^verbatim>\<open>ProjectComponentAndLangContext\<close> of the sources is represented
  by the component context \<^verbatim>\<open>languageContext.getProjectComponentContext(component)\<close> gives.
\<close>

record ('p, 'c) ProjectComponentContext =
  projectComponent :: 'p
  getPracticeContext :: 'c
  getOverriddenPractice :: "string \<Rightarrow> PracticeConfig"

record ('p, 'c) PracticeWithContext =
  componentContext :: "('p, 'c) ProjectComponentContext"
  practiceContext :: 'c
  practice :: "'c IPracticeWithMetadata"
  evaluation :: PracticeEvaluationResult
  isOn :: bool

text \<open>The object \<^verbatim>\<open>Scanner.report\<close> builds for the reporter from one record.\<close>

record 'p PracticeReport =
  report_component :: 'p
  report_practice :: PracticeMetadata
  report_evaluation :: PracticeEvaluationResult
  report_impact :: PracticeImpact
  report_isOn :: bool

subsection \<open>ScannerUtils\<close>

text \<open>
  The three static helpers of \<^verbatim>\<open>ScannerUtils\<close> the scanner calls. Their file is not among the
  sources, so the scanner is modelled over any implementation of them. \<^verbatim>\<open>sortPractices\<close>
  may throw (\<open>Inl\<close>).
\<close>

datatype ScanError = DependencyCycleFault "string list"

record 'c FilteredPractices =
  customApplicablePractices :: "'c IPracticeWithMetadata list"
  practicesOff :: "'c IPracticeWithMetadata list"

record ('p, 'c) ScannerUtils =
  filterPractices ::
    "('p, 'c) ProjectComponentContext \<Rightarrow> 'c IPracticeWithMetadata list \<Rightarrow> 'c FilteredPractices"
  sortPractices :: "'c IPracticeWithMetadata list \<Rightarrow> ScanError + 'c IPracticeWithMetadata list"
  isFulfilled :: "'c IPracticeWithMetadata \<Rightarrow> ('p, 'c) PracticeWithContext list \<Rightarrow> bool"

subsection \<open>Effects\<close>

text \<open>
  What the scanner does besides computing records, in order: a call of a practice's
  \<^verbatim>\<open>evaluate\<close> (by practice id), a call \<^verbatim>\<open>debug(namespace)\<close> of the \<^verbatim>\<open>debug\<close> package's
  factory, which creates a \<^verbatim>\<open>Debugger\<close> for the namespace and writes nothing (the constructor
  keeps such a debugger as \<^verbatim>\<open>this.scanDebug = debug('scanner')\<close>), and a call of the debugger
  \<^verbatim>\<open>this.scanDebug(...)\<close>, which writes its arguments.
\<close>

datatype Event =
    EvaluateCalled string
  | DebuggerCreated string
  | DebugOutput "string list"

subsection \<open>detectPracticesForComponent\<close>

abbreviation pid :: "'c IPracticeWithMetadata \<Rightarrow> string" where
  "pid p \<equiv> id' (getMetadata p)"

abbreviation rid :: "('p, 'c) PracticeWithContext \<Rightarrow> string" where
  "rid r \<equiv> id' (getMetadata (practice r))"

text \<open>
  One turn of the loop over \<^verbatim>\<open>orderedApplicablePractices\<close> (lines 180 to 201), on the events
  so far and the array \<^verbatim>\<open>practicesWithContext\<close>. A practice that is not fulfilled is passed
  over (\<^verbatim>\<open>continue\<close>); an \<^verbatim>\<open>evaluate\<close> that throws yields \<open>unknown\<close> and the call
  \<^verbatim>\<open>debug(message)\<close>.
\<close>

definition evaluatePractice ::
    "('p, 'c) ScannerUtils \<Rightarrow> ('p, 'c) ProjectComponentContext \<Rightarrow> 'c IPracticeWithMetadata \<Rightarrow>
     Event list \<times> ('p, 'c) PracticeWithContext list \<Rightarrow>
     Event list \<times> ('p, 'c) PracticeWithContext list" where
  "evaluatePractice utils cc p st =
     (let events = fst st; practicesWithContext = snd st;
          practiceConfig = getOverriddenPractice cc (pid p)
      in if \<not> isFulfilled utils p practicesWithContext then st
         else
           (case evaluate p (getPracticeContext cc) practiceConfig of
              Inr result \<Rightarrow>
                (events @ [EvaluateCalled (pid p)],
                 practicesWithContext @
                   [\<lparr> componentContext = cc, practiceContext = getPracticeContext cc,
                      practice = p, evaluation = result, isOn = True \<rparr>])
            | Inl error \<Rightarrow>
                (events @
                   [EvaluateCalled (pid p),
                    DebuggerCreated
                      (''The '' @ name (getMetadata p) @
                       '' practice failed with this error:'' @ [CHR 0x0A] @ error)],
                 practicesWithContext @
                   [\<lparr> componentContext = cc, practiceContext = getPracticeContext cc,
                      practice = p, evaluation = unknown, isOn = True \<rparr>])))"

text \<open>The loop itself: the practices are taken in order, each on the state the last left.\<close>

fun evaluatePractices ::
    "('p, 'c) ScannerUtils \<Rightarrow> ('p, 'c) ProjectComponentContext \<Rightarrow> 'c IPracticeWithMetadata list \<Rightarrow>
     Event list \<times> ('p, 'c) PracticeWithContext list \<Rightarrow>
     Event list \<times> ('p, 'c) PracticeWithContext list" where
  "evaluatePractices utils cc [] st = st"
| "evaluatePractices utils cc (p # ps) st =
     evaluatePractices utils cc ps (evaluatePractice utils cc p st)"

text \<open>The record pushed for a turned off practice (lines 207 to 217).\<close>

definition practiceOffWithContext ::
    "('p, 'c) ProjectComponentContext \<Rightarrow> 'c IPracticeWithMetadata \<Rightarrow> ('p, 'c) PracticeWithContext" where
  "practiceOffWithContext cc practiceOff =
     \<lparr> componentContext = cc, practiceContext = getPracticeContext cc,
       practice = practiceOff, evaluation = unknown, isOn = False \<rparr>"

text \<open>
  \<^verbatim>\<open>Scanner.detectPracticesForComponent\<close>: the events of the component's evaluation and the
  array it resolves with, or the error \<^verbatim>\<open>sortPractices\<close> threw, which nothing in the
  function catches. \<^verbatim>\<open>configProvider.init\<close> and \<^verbatim>\<open>filterPractices\<close> are taken to return.
\<close>

definition detectPracticesForComponent ::
    "('p, 'c) ScannerUtils \<Rightarrow> 'c IPracticeWithMetadata list \<Rightarrow> ('p, 'c) ProjectComponentContext \<Rightarrow>
     Event list \<times> (ScanError + ('p, 'c) PracticeWithContext list)" where
  "detectPracticesForComponent utils practices cc =
     (let filteredPractices = filterPractices utils cc practices in
      case sortPractices utils (customApplicablePractices filteredPractices) of
        Inl fault \<Rightarrow> ([], Inl fault)
      | Inr orderedApplicablePractices \<Rightarrow>
          (let (events, practicesWithContext) =
                 evaluatePractices utils cc orderedApplicablePractices ([], [])
           in (events,
               Inr (practicesWithContext @
                    map (practiceOffWithContext cc) (practicesOff filteredPractices)))))"

subsection \<open>detectPractices, report and scan\<close>

text \<open>
  \<^verbatim>\<open>Promise.all\<close> over the per-component promises: it resolves with all the values when every
  promise resolves, and rejects as soon as one rejects. When several reject, the error it
  rejects with is the one of the promise that rejected first in time; the model takes the
  first in the list, and no property below depends on which one it is.
\<close>

fun promiseAll :: "('e + 'a) list \<Rightarrow> 'e + 'a list" where
  "promiseAll [] = Inr []"
| "promiseAll (Inl e # rs) = Inl e"
| "promiseAll (Inr v # rs) = (case promiseAll rs of Inl e \<Rightarrow> Inl e | Inr vs \<Rightarrow> Inr (v # vs))"

text \<open>
  \<^verbatim>\<open>Scanner.detectPractices\<close>. The events of the components are listed component by
  component; the components share no state, so the order in which their evaluations
  interleave changes no record.
\<close>

definition detectPractices ::
    "('p, 'c) ScannerUtils \<Rightarrow> 'c IPracticeWithMetadata list \<Rightarrow> ('p, 'c) ProjectComponentContext list \<Rightarrow>
     Event list \<times> (ScanError + ('p, 'c) PracticeWithContext list)" where
  "detectPractices utils practices componentsWithContext =
     (let results = map (detectPracticesForComponent utils practices) componentsWithContext;
          events = concat (map fst results)
      in case promiseAll (map snd results) of
           Inl fault \<Rightarrow> (events, Inl fault)
         | Inr practicesWithComponentContext \<Rightarrow>
             (let practicesWithContext = concat practicesWithComponentContext
              in (events @
                    [DebugOutput [''Applicable practices:''],
                     DebugOutput (map (\<lambda>p. name (getMetadata (practice p))) practicesWithContext)],
                  Inr practicesWithContext)))"

text \<open>
  \<^verbatim>\<open>Scanner.report\<close>: the array handed to \<^verbatim>\<open>this.reporter.report\<close>. What the reporter makes
  of it, and the printing of its answer, are outside the scanner.
\<close>

definition report :: "('p, 'c) PracticeWithContext list \<Rightarrow> 'p PracticeReport list" where
  "report practicesWithContext =
     (let relevantPractices = practicesWithContext in
      map (\<lambda>p.
            let config = getOverriddenPractice (componentContext p) (rid p);
                overridenImpact = config_impact config
            in \<lparr> report_component = projectComponent (componentContext p),
                 report_practice = getMetadata (practice p),
                 report_evaluation = evaluation p,
                 report_impact =
                   (case overridenImpact of
                      Some i \<Rightarrow> i
                    | None \<Rightarrow> impact (getMetadata (practice p))),
                 report_isOn = isOn p \<rparr>)
        relevantPractices)"

text \<open>
  \<^verbatim>\<open>Scanner.scan\<close> from the detected components on (lines 65 and 66): the array the reporter
  is handed, or the error that ended the scan before \<^verbatim>\<open>report\<close> was reached.
\<close>

definition scan ::
    "('p, 'c) ScannerUtils \<Rightarrow> 'c IPracticeWithMetadata list \<Rightarrow> ('p, 'c) ProjectComponentContext list \<Rightarrow>
     ScanError + 'p PracticeReport list" where
  "scan utils practices projectComponents =
     (case snd (detectPractices utils practices projectComponents) of
        Inl fault \<Rightarrow> Inl fault
      | Inr componentsWithPractices \<Rightarrow> Inr (report componentsWithPractices))"

subsection \<open>The helpers as the spec describes them\<close>

text \<open>
  Modelled from the spec: \<^verbatim>\<open>ScannerUtils.isFulfilled\<close>, whose file is not among the sources
  (spec section 4.2, step 2). For every id in \<^verbatim>\<open>requiresPracticing\<close> the records produced so far
  hold a record of that id with evaluation \<open>practicing\<close>, and for every id in
  \<^verbatim>\<open>requiresNotPracticing\<close> one with evaluation \<open>notPracticing\<close>.
\<close>

definition specIsFulfilled ::
    "'c IPracticeWithMetadata \<Rightarrow> ('p, 'c) PracticeWithContext list \<Rightarrow> bool" where
  "specIsFulfilled p evaluatedPractices \<longleftrightarrow>
     list_all (\<lambda>d. list_ex (\<lambda>r. rid r = d \<and> evaluation r = practicing) evaluatedPractices)
       (dependsOn_practicing (getMetadata p)) \<and>
     list_all (\<lambda>d. list_ex (\<lambda>r. rid r = d \<and> evaluation r = notPracticing) evaluatedPractices)
       (dependsOn_notPracticing (getMetadata p))"

text \<open>
  Modelled from the spec: \<^verbatim>\<open>ScannerUtils.filterPractices\<close>, whose file is not among the
  sources (spec sections 2, 3 and 4.2). The pipeline works on the practices applicable to the
  component, in catalog order; those the Override Store disables are set apart from those it
  leaves on.
\<close>

definition specFilterPractices ::
    "('p, 'c) ProjectComponentContext \<Rightarrow> 'c IPracticeWithMetadata list \<Rightarrow> 'c FilteredPractices" where
  "specFilterPractices cc practices =
     (let applicablePractices = filter (\<lambda>p. isApplicable p (getPracticeContext cc)) practices
      in \<lparr> customApplicablePractices =
             filter (\<lambda>p. enabled (getOverriddenPractice cc (pid p))) applicablePractices,
           practicesOff =
             filter (\<lambda>p. \<not> enabled (getOverriddenPractice cc (pid p))) applicablePractices \<rparr>)"

text \<open>The first element of a list that satisfies a predicate, and the list without it.\<close>

fun takeFirst :: "('a \<Rightarrow> bool) \<Rightarrow> 'a list \<Rightarrow> ('a \<times> 'a list) option" where
  "takeFirst P [] = None"
| "takeFirst P (x # xs) =
     (if P x then Some (x, xs)
      else (case takeFirst P xs of None \<Rightarrow> None | Some (y, ys) \<Rightarrow> Some (y, x # ys)))"

text \<open>
  Modelled from the spec: when a practice can be placed in the order (spec section 4.1).
  Every id it references in its dependency constraints is placed already, or is outside the
  applicable set; a reference outside the applicable set is no error and holds nothing up.
\<close>

definition placeable :: "string list \<Rightarrow> string list \<Rightarrow> 'c IPracticeWithMetadata \<Rightarrow> bool" where
  "placeable applicableIds placedIds p \<longleftrightarrow>
     list_all (\<lambda>d. d \<in> set placedIds \<or> d \<notin> set applicableIds)
       (dependsOn_practicing (getMetadata p) @ dependsOn_notPracticing (getMetadata p))"

lemma takeFirst_length: "takeFirst P xs = Some (y, ys) \<Longrightarrow> length ys < length xs"
  by (induction xs arbitrary: y ys) (auto split: if_splits option.splits)

text \<open>
  Modelled from the spec: the resolver's rounds (spec section 4.1). Of the practices that
  can be placed, the first in catalog order is placed next. When practices remain and none
  can be placed, the constraints hold a cycle, and the resolver fails with the ids of the
  practices it could not place: the members of the cycles and the practices that depend on
  them.
\<close>

function specSortLoop ::
    "string list \<Rightarrow> 'c IPracticeWithMetadata list \<Rightarrow> 'c IPracticeWithMetadata list \<Rightarrow>
     ScanError + 'c IPracticeWithMetadata list" where
  "specSortLoop applicableIds placed remaining =
     (if remaining = [] then Inr placed
      else
        (case takeFirst (placeable applicableIds (map pid placed)) remaining of
           None \<Rightarrow> Inl (DependencyCycleFault (map pid remaining))
         | Some (p, rest) \<Rightarrow> specSortLoop applicableIds (placed @ [p]) rest))"
  by pat_completeness auto
termination
  by (relation "measure (\<lambda>(applicableIds, placed, remaining). length remaining)")
     (auto dest: takeFirst_length)

declare specSortLoop.simps [simp del]

text \<open>
  Modelled from the spec: \<^verbatim>\<open>ScannerUtils.sortPractices\<close>, whose file is not among the sources
  (spec section 4.1): a linear order of the applicable practices in which every practice
  stands after the practices it references, or the cycle fault.
\<close>

definition specSortPractices ::
    "'c IPracticeWithMetadata list \<Rightarrow> ScanError + 'c IPracticeWithMetadata list" where
  "specSortPractices practices = specSortLoop (map pid practices) [] practices"

text \<open>Modelled from the spec: the three helpers of \<^verbatim>\<open>ScannerUtils\<close> together.\<close>

definition specScannerUtils :: "('p, 'c) ScannerUtils" where
  "specScannerUtils =
     \<lparr> filterPractices = specFilterPractices,
       sortPractices = specSortPractices,
       isFulfilled = specIsFulfilled \<rparr>"

subsection \<open>Example catalog and components\<close>

text \<open>
  The practice context of an example component is its language. An example practice is
  given by its id, its \<^verbatim>\<open>reportOnlyOnce\<close> flag, its two dependency lists, the languages it
  applies to and what its \<^verbatim>\<open>evaluate\<close> does for a language.
\<close>

definition examplePractice ::
    "string \<Rightarrow> bool \<Rightarrow> string list \<Rightarrow> string list \<Rightarrow> (string \<Rightarrow> bool) \<Rightarrow>
     (string \<Rightarrow> string + PracticeEvaluationResult) \<Rightarrow> string IPracticeWithMetadata" where
  "examplePractice i once requiresPracticing requiresNotPracticing applicable run =
     \<lparr> getMetadata =
         \<lparr> id' = i, name = ''Check '' @ i, impact = high, suggestion = ''fix it'',
           reportOnlyOnce = once, url = ''https://example.org'',
           dependsOn_practicing = requiresPracticing,
           dependsOn_notPracticing = requiresNotPracticing \<rparr>,
       isApplicable = applicable,
       evaluate = (\<lambda>language config. run language) \<rparr>"

definition lockfilePresent :: "string IPracticeWithMetadata" where
  "lockfilePresent =
     examplePractice ''lockfile-present'' False [] [] (\<lambda>l. True)
       (\<lambda>l. if l = ''JavaScript'' then Inr notPracticing else Inr practicing)"

definition exactOneLockfile :: "string IPracticeWithMetadata" where
  "exactOneLockfile =
     examplePractice ''exact-one-lockfile'' False [''lockfile-present''] [] (\<lambda>l. True)
       (\<lambda>l. Inr practicing)"

definition practiceY :: "string IPracticeWithMetadata" where
  "practiceY = examplePractice ''Y'' True [] [] (\<lambda>l. True) (\<lambda>l. Inr notPracticing)"

definition practiceThrows :: "string IPracticeWithMetadata" where
  "practiceThrows = examplePractice ''T'' False [] [] (\<lambda>l. True) (\<lambda>l. Inl ''Error: boom'')"

definition practiceP :: "string IPracticeWithMetadata" where
  "practiceP = examplePractice ''P'' False [''Q''] [] (\<lambda>l. l = ''Java'') (\<lambda>l. Inr practicing)"

definition practiceQ :: "string IPracticeWithMetadata" where
  "practiceQ = examplePractice ''Q'' False [''P''] [] (\<lambda>l. l = ''Java'') (\<lambda>l. Inr practicing)"

definition practiceX :: "string IPracticeWithMetadata" where
  "practiceX = examplePractice ''X'' False [] [] (\<lambda>l. l = ''Java'') (\<lambda>l. Inr practicing)"

text \<open>
  An example component: its path, its language, the ids its configuration turns off and the
  impacts it overrides.
\<close>

definition exampleComponent ::
    "string \<Rightarrow> string \<Rightarrow> string list \<Rightarrow> (string \<times> PracticeImpact) list \<Rightarrow>
     (string, string) ProjectComponentContext" where
  "exampleComponent path language off impacts =
     \<lparr> projectComponent = path, getPracticeContext = language,
       getOverriddenPractice =
         (\<lambda>i. \<lparr> config_impact = map_of impacts i, enabled = (i \<notin> set off) \<rparr>) \<rparr>"

text \<open>What an example shows of a record: practice id, component, evaluation and \<^verbatim>\<open>isOn\<close>.\<close>

definition summary ::
    "('p, 'c) PracticeWithContext \<Rightarrow> string \<times> 'p \<times> PracticeEvaluationResult \<times> bool" where
  "summary r = (rid r, projectComponent (componentContext r), evaluation r, isOn r)"

text \<open>What an example shows of an object handed to the reporter.\<close>

definition reportSummary ::
    "'p PracticeReport \<Rightarrow> string \<times> 'p \<times> bool \<times> PracticeEvaluationResult \<times> PracticeImpact \<times> bool" where
  "reportSummary r =
     (id' (report_practice r), report_component r, reportOnlyOnce (report_practice r),
      report_evaluation r, report_impact r, report_isOn r)"

text \<open>The record an example expects for an evaluated practice, and one for a practice turned off.\<close>

definition exampleRecord ::
    "(string, string) ProjectComponentContext \<Rightarrow> string IPracticeWithMetadata \<Rightarrow>
     PracticeEvaluationResult \<Rightarrow> bool \<Rightarrow> (string, string) PracticeWithContext" where
  "exampleRecord cc p result on =
     \<lparr> componentContext = cc, practiceContext = getPracticeContext cc, practice = p,
       evaluation = result, isOn = on \<rparr>"

subsection \<open>Notions the properties are stated with\<close>

text \<open>The practice ids of the \<^verbatim>\<open>evaluate\<close> calls among some events, in order.\<close>

fun evaluateCalls :: "Event list \<Rightarrow> string list" where
  "evaluateCalls [] = []"
| "evaluateCalls (EvaluateCalled x # es) = x # evaluateCalls es"
| "evaluateCalls (e # es) = evaluateCalls es"

text \<open>
  Every record of the list was pushed when \<^verbatim>\<open>isFulfilled\<close> held of its practice and the
  records before it.
\<close>

definition gated :: "('p, 'c) ScannerUtils \<Rightarrow> ('p, 'c) PracticeWithContext list \<Rightarrow> bool" where
  "gated u rs \<longleftrightarrow> (\<forall>i < length rs. isFulfilled u (practice (rs ! i)) (take i rs))"

text \<open>
  A cycle among the dependency constraints of some practices: a non-empty list of ids of
  these practices in which a practice of each id references the next id, and a practice of
  the last id the first.
\<close>

definition dependencyCycle :: "'c IPracticeWithMetadata list \<Rightarrow> string list \<Rightarrow> bool" where
  "dependencyCycle ps cycle \<longleftrightarrow>
     cycle \<noteq> [] \<and> set cycle \<subseteq> set (map pid ps) \<and>
     (\<forall>(a, b) \<in> set (zip cycle (rotate1 cycle)). \<forall>p \<in> set ps.
        pid p = a \<longrightarrow>
        b \<in> set (dependsOn_practicing (getMetadata p) @ dependsOn_notPracticing (getMetadata p)))"

text \<open>The pair (practice, component) a record is for.\<close>

abbreviation recordKey :: "('p, 'c) PracticeWithContext \<Rightarrow> string \<times> 'p" where
  "recordKey r \<equiv> (rid r, projectComponent (componentContext r))"

section \<open>Properties of JsGitignoreCorrectlySetPractice\<close>

subsection \<open>Trimming and splitting\<close>

lemma blankCodeUnit_isWhiteSpace: "blankCodeUnit c \<longleftrightarrow> isWhiteSpace c"
proof
  assume "isWhiteSpace c"
  then show "blankCodeUnit c"
    unfolding isWhiteSpace_def blankCodeUnit_def by auto
next
  assume b: "blankCodeUnit c"
  have r1: "0x0009 \<le> c \<and> c \<le> 0x000D \<Longrightarrow> c \<in> {0x0009, 0x000A, 0x000B, 0x000C, 0x000D}"
  proof -
    assume "0x0009 \<le> c \<and> c \<le> 0x000D"
    then have "9 \<le> unat c \<and> unat c \<le> 13" by (simp add: word_le_nat_alt)
    then have "unat c \<in> {9, 10, 11, 12, 13}"
      by (simp only: insert_iff empty_iff) presburger
    moreover have "\<And>n. unat c = n \<Longrightarrow> c = word_of_nat n" by auto
    ultimately have "c \<in> {word_of_nat 9, word_of_nat 10, word_of_nat 11, word_of_nat 12,
        word_of_nat 13}"
      by blast
    then show ?thesis by simp
  qed
  have r2: "0x2000 \<le> c \<and> c \<le> 0x200A \<Longrightarrow>
      c \<in> {0x2000, 0x2001, 0x2002, 0x2003, 0x2004, 0x2005, 0x2006, 0x2007, 0x2008, 0x2009, 0x200A}"
  proof -
    assume "0x2000 \<le> c \<and> c \<le> 0x200A"
    then have "8192 \<le> unat c \<and> unat c \<le> 8202" by (simp add: word_le_nat_alt)
    then have "unat c \<in> {8192, 8193, 8194, 8195, 8196, 8197, 8198, 8199, 8200, 8201, 8202}"
      by (simp only: insert_iff empty_iff) presburger
    moreover have "\<And>n. unat c = n \<Longrightarrow> c = word_of_nat n" by auto
    ultimately have "c \<in> {word_of_nat 8192, word_of_nat 8193, word_of_nat 8194,
        word_of_nat 8195, word_of_nat 8196, word_of_nat 8197, word_of_nat 8198, word_of_nat 8199,
        word_of_nat 8200, word_of_nat 8201, word_of_nat 8202}"
      by blast
    then show ?thesis by simp
  qed
  from b r1 r2 show "isWhiteSpace c"
    unfolding isWhiteSpace_def blankCodeUnit_def by auto
qed

lemma trim_nonempty: "trim l \<noteq> [] \<longleftrightarrow> (\<exists>c \<in> set l. \<not> isWhiteSpace c)"
proof -
  have d: "\<And>xs. (\<exists>x \<in> set (dropWhile isWhiteSpace xs). \<not> isWhiteSpace x) \<longleftrightarrow>
      (\<exists>x \<in> set xs. \<not> isWhiteSpace x)"
  proof -
    fix xs :: js_string
    show "(\<exists>x \<in> set (dropWhile isWhiteSpace xs). \<not> isWhiteSpace x) \<longleftrightarrow>
      (\<exists>x \<in> set xs. \<not> isWhiteSpace x)"
      by (induction xs) auto
  qed
  have "trim l \<noteq> [] \<longleftrightarrow> (\<exists>x \<in> set (rev (dropWhile isWhiteSpace l)). \<not> isWhiteSpace x)"
    by (simp add: trim_def dropWhile_eq_Nil_conv)
  also have "\<dots> \<longleftrightarrow> (\<exists>x \<in> set l. \<not> isWhiteSpace x)"
    using d [of l] by simp
  finally show ?thesis .
qed

lemma split_newline_nonempty: "split_newline cs \<noteq> []"
  by (induction cs rule: split_newline.induct) (auto split: list.splits)

lemma split_newline_decompose:
  "split_newline cs = l # ls \<Longrightarrow>
   0x000A \<notin> set l \<and>
   ((ls = [] \<and> cs = l) \<or>
    (\<exists>rest. cs = l @ 0x000D # 0x000A # rest \<and> split_newline rest = ls) \<or>
    (\<exists>rest. cs = l @ 0x000A # rest \<and> (l = [] \<or> last l \<noteq> 0x000D) \<and> split_newline rest = ls))"
proof (induction cs arbitrary: l ls)
  case Nil
  then show ?case by simp
next
  case (Cons c cs)
  show ?case
  proof (cases "c = 0x000D \<and> cs \<noteq> [] \<and> hd cs = 0x000A")
    case True
    then obtain cs' where cs: "cs = 0x000A # cs'" by (cases cs) auto
    with True Cons.prems have "l = []" "ls = split_newline cs'" by auto
    with True cs show ?thesis by simp
  next
    case notA: False
    show ?thesis
    proof (cases "c = 0x000A")
      case True
      with notA Cons.prems have "l = []" "ls = split_newline cs" by auto
      with True show ?thesis by simp
    next
      case False
      obtain l0 ls0 where s: "split_newline cs = l0 # ls0"
        using split_newline_nonempty [of cs] by (cases "split_newline cs") auto
      with notA False Cons.prems have l: "l = c # l0" and ls: "ls = ls0" by auto
      note ih = Cons.IH [OF s]
      from ih False have nl: "0x000A \<notin> set l" by (simp add: l)
      from ih consider
          (i) "ls0 = []" "cs = l0"
        | (ii) rest where "cs = l0 @ 0x000D # 0x000A # rest" "split_newline rest = ls0"
        | (iii) rest where "cs = l0 @ 0x000A # rest" "l0 = [] \<or> last l0 \<noteq> 0x000D"
            "split_newline rest = ls0"
        by blast
      then show ?thesis
      proof cases
        case i
        with nl show ?thesis by (simp add: l ls)
      next
        case ii
        with nl show ?thesis by (simp add: l ls)
      next
        case iii
        have "last l \<noteq> 0x000D"
        proof (cases "l0 = []")
          case True
          with iii(1) have "cs \<noteq> [] \<and> hd cs = 0x000A" by simp
          with notA have "c \<noteq> 0x000D" by blast
          with True show ?thesis by (simp add: l)
        next
          case False
          with iii(2) show ?thesis by (simp add: l)
        qed
        with nl iii show ?thesis by (simp add: l ls)
      qed
    qed
  qed
qed

lemma split_newline_lineOf: "l \<in> set (split_newline cs) \<Longrightarrow> lineOf cs l"
proof (induction "length cs" arbitrary: cs rule: less_induct)
  case less
  obtain l0 ls where s: "split_newline cs = l0 # ls"
    using split_newline_nonempty [of cs] by (cases "split_newline cs") auto
  note d = split_newline_decompose [OF s]
  show ?case
  proof (cases "l = l0")
    case True
    from d have "\<exists>after. cs = l0 @ after \<and> endsLine l0 after"
      unfolding endsLine_def by auto
    then obtain after where "cs = [] @ l0 @ after" "endsLine l0 after" by auto
    with d True show ?thesis unfolding lineOf_def by blast
  next
    case False
    with less.prems s have mem: "l \<in> set ls" by simp
    then have "ls \<noteq> []" by auto
    with d obtain t rest where cs: "cs = (l0 @ t) @ rest" and t: "t \<noteq> []" "last t = 0x000A"
      and r: "split_newline rest = ls"
    proof -
      from d \<open>ls \<noteq> []\<close> consider
          rest where "cs = l0 @ 0x000D # 0x000A # rest" "split_newline rest = ls"
        | rest where "cs = l0 @ 0x000A # rest" "split_newline rest = ls"
        by blast
      then show ?thesis
      proof cases
        case 1
        then show ?thesis using that [of "[0x000D, 0x000A]" rest] by simp
      next
        case 2
        then show ?thesis using that [of "[0x000A]" rest] by simp
      qed
    qed
    have "length rest < length cs" using cs t by simp
    from less.hyps [OF this] mem r have "lineOf rest l" by simp
    then obtain before after where b: "rest = before @ l @ after"
      "before = [] \<or> last before = 0x000A" "0x000A \<notin> set l" "endsLine l after"
      unfolding lineOf_def by blast
    have "cs = ((l0 @ t) @ before) @ l @ after" using cs b(1) by simp
    moreover have "last ((l0 @ t) @ before) = 0x000A"
      using b(2) t by (cases "before = []") auto
    ultimately show ?thesis unfolding lineOf_def using b(3,4) by blast
  qed
qed

lemma split_newline_first:
  "0x000A \<notin> set l \<Longrightarrow> endsLine l after \<Longrightarrow> \<exists>ls. split_newline (l @ after) = l # ls"
proof (induction l)
  case Nil
  then show ?case
    unfolding endsLine_def by (cases after) (auto split: list.splits)
next
  case (Cons c l)
  from Cons.prems(1) have c: "c \<noteq> 0x000A" and nl: "0x000A \<notin> set l" by auto
  have e: "endsLine l after"
    using Cons.prems(2) unfolding endsLine_def by (cases "l = []") auto
  from Cons.IH [OF nl e] obtain ls where ih: "split_newline (l @ after) = l # ls" by blast
  have notA: "\<not> (c = 0x000D \<and> l @ after \<noteq> [] \<and> hd (l @ after) = 0x000A)"
  proof (cases "l = []")
    case True
    with Cons.prems(2) show ?thesis unfolding endsLine_def by auto
  next
    case False
    with nl have "hd (l @ after) \<noteq> 0x000A" by (cases l) auto
    then show ?thesis by simp
  qed
  with c ih show ?case by simp
qed

lemma split_newline_two:
  assumes "bs \<noteq> []" and "last bs = 0x000A"
  shows "\<exists>l0 l1 ls. split_newline bs = l0 # l1 # ls"
proof -
  obtain l0 ls where s: "split_newline bs = l0 # ls"
    using split_newline_nonempty [of bs] by (cases "split_newline bs") auto
  have "ls \<noteq> []"
  proof
    assume "ls = []"
    with split_newline_decompose [OF s] have "bs = l0" and "0x000A \<notin> set l0"
      by (auto simp: split_newline_nonempty)
    with assms show False using last_in_set [of bs] by auto
  qed
  with s show ?thesis by (cases ls) auto
qed

lemma split_newline_append:
  "before \<noteq> [] \<Longrightarrow> last before = 0x000A \<Longrightarrow>
   split_newline (before @ rest) = butlast (split_newline before) @ split_newline rest"
proof (induction before rule: split_newline.induct)
  case 1
  then show ?case by simp
next
  case (2 c bs)
  show ?case
  proof (cases "c = 0x000D \<and> bs \<noteq> [] \<and> hd bs = 0x000A")
    case A: True
    then obtain bs' where bs: "bs = 0x000A # bs'" by (cases bs) auto
    show ?thesis
    proof (cases "bs' = []")
      case True
      with A bs show ?thesis by simp
    next
      case False
      with "2.prems" bs have "last bs' = 0x000A" by simp
      with "2.IH"(1) [OF A] False bs
      have "split_newline (bs' @ rest) = butlast (split_newline bs') @ split_newline rest"
        by simp
      with A bs show ?thesis by (simp add: split_newline_nonempty)
    qed
  next
    case notA: False
    show ?thesis
    proof (cases "c = 0x000A")
      case B: True
      show ?thesis
      proof (cases "bs = []")
        case True
        with B show ?thesis by simp
      next
        case False
        with "2.prems" have "last bs = 0x000A" by simp
        with "2.IH"(2) [OF notA B] False
        have "split_newline (bs @ rest) = butlast (split_newline bs) @ split_newline rest"
          by simp
        with B notA False show ?thesis by (simp add: split_newline_nonempty)
      qed
    next
      case notB: False
      with "2.prems" have bs: "bs \<noteq> []" "last bs = 0x000A" by (auto split: if_splits)
      from split_newline_two [OF bs] obtain l0 l1 ls where
        s: "split_newline bs = l0 # l1 # ls" by blast
      from "2.IH"(3) [OF notA notB] bs s
      have ih: "split_newline (bs @ rest) = l0 # butlast (l1 # ls) @ split_newline rest"
        by simp
      have notA': "\<not> (c = 0x000D \<and> bs @ rest \<noteq> [] \<and> hd (bs @ rest) = 0x000A)"
        using notA bs by simp
      have "split_newline ((c # bs) @ rest) = (c # l0) # butlast (l1 # ls) @ split_newline rest"
        using notA' notB ih by simp
      moreover have "split_newline (c # bs) = (c # l0) # l1 # ls"
        using notA notB s by simp
      ultimately show ?thesis by simp
    qed
  qed
qed

lemma lineOf_split_newline: "lineOf cs l \<Longrightarrow> l \<in> set (split_newline cs)"
proof -
  assume "lineOf cs l"
  then obtain before after where cs: "cs = before @ l @ after"
    and b: "before = [] \<or> last before = 0x000A"
    and nl: "0x000A \<notin> set l" and e: "endsLine l after"
    unfolding lineOf_def by blast
  from split_newline_first [OF nl e] obtain ls where f: "split_newline (l @ after) = l # ls"
    by blast
  show ?thesis
  proof (cases "before = []")
    case True
    with cs f show ?thesis by simp
  next
    case False
    with b have "last before = 0x000A" by simp
    from split_newline_append [OF False this, of "l @ after"] f cs
    show ?thesis by simp
  qed
qed

lemma split_newline_lines: "l \<in> set (split_newline cs) \<longleftrightarrow> lineOf cs l"
  using split_newline_lineOf lineOf_split_newline by blast

lemma parseGitignore_consideredLine:
  "l \<in> set (parseGitignore content) \<longleftrightarrow> consideredLine content l"
proof -
  have "startsWith l (lit ''#'') \<longleftrightarrow> (\<exists>rest. l = 0x0023 # rest)"
    by (cases l) (auto simp: startsWith_def lit_def)
  then show ?thesis
    by (simp add: parseGitignore_def consideredLine_def split_newline_lines trim_nonempty
        blankCodeUnit_isWhiteSpace)
qed

subsection \<open>The verdict\<close>

lemma test_sublist: "test pat s \<longleftrightarrow> sublist pat s"
  by (induction s) (simp_all add: sublist_Cons_right)

lemma truthy_find_test:
  assumes "pat \<noteq> []"
  shows "truthy (find (test pat) ls) \<longleftrightarrow> (\<exists>l \<in> set ls. sublist pat l)"
proof (induction ls)
  case Nil
  show ?case by simp
next
  case (Cons l ls)
  show ?case
  proof (cases "test pat l")
    case True
    then have "sublist pat l" by (simp add: test_sublist)
    with assms have "l \<noteq> []" by auto
    with True \<open>sublist pat l\<close> show ?thesis by auto
  next
    case False
    with Cons show ?thesis by (simp add: test_sublist)
  qed
qed

lemma lit_nonempty: "s \<noteq> [] \<Longrightarrow> lit s \<noteq> []"
  by (simp add: lit_def)

lemma gitignoreVerdict_listed:
  "gitignoreVerdict (parseGitignore content) =
     (if gitignoreCorrectlySet content then practicing else notPracticing)"
proof -
  have t: "\<And>s. s \<noteq> [] \<Longrightarrow>
      truthy (find (test (lit s)) (parseGitignore content)) = listed s content"
    by (auto simp: truthy_find_test lit_nonempty listed_def parseGitignore_consideredLine)
  show ?thesis
    unfolding gitignoreVerdict_def gitignoreCorrectlySet_def Let_def
    by (auto simp: t)
qed

text \<open>
  C9. When the root of the practice context has no file inspector, \<^verbatim>\<open>evaluate\<close> returns
  \<open>unknown\<close> and hands no path to \<^verbatim>\<open>readFile\<close>, whatever else the context holds.
\<close>

theorem evaluate_without_fileInspector:
  assumes "root_fileInspector (root ctx) = None"
  shows "JsGitignoreCorrectlySet_evaluate ctx = ([], Inr unknown)"
  using assms by (simp add: JsGitignoreCorrectlySet_evaluate_def)

theorem evaluate_without_fileInspector_witness:
  "JsGitignoreCorrectlySet_evaluate
     \<lparr> fileInspector = Some (inspectorOf gitignoreYarn),
       root = \<lparr> root_fileInspector = None \<rparr> \<rparr> = ([], Inr unknown)"
  using evaluate_without_fileInspector
    [of "\<lparr> fileInspector = Some (inspectorOf gitignoreYarn),
           root = \<lparr> root_fileInspector = None \<rparr> \<rparr>"]
  by simp

text \<open>
  C10. For every content of \<^verbatim>\<open>.gitignore\<close> the root's file inspector reads, \<^verbatim>\<open>evaluate\<close>
  returns \<open>practicing\<close> exactly when, among the lines that are not blank after trimming and do
  not start with \<open>#\<close>, exactly one of \<^verbatim>\<open>package-lock.json\<close> and \<^verbatim>\<open>yarn.lock\<close> occurs and
  \<^verbatim>\<open>node_modules\<close>, \<^verbatim>\<open>coverage\<close> and \<^verbatim>\<open>.log\<close> each occur in some line; in every other case it
  returns \<open>notPracticing\<close>. The lines are those of \<open>lineOf\<close>: the stretches of the content
  between line breaks, a line break being LF or CR LF.
\<close>

theorem evaluate_practicing_iff:
  assumes "root_fileInspector (root ctx) = Some inspector"
    and "readFile inspector ''.gitignore'' = Inr content"
  shows "(snd (JsGitignoreCorrectlySet_evaluate ctx) = Inr practicing \<longleftrightarrow>
            gitignoreCorrectlySet content) \<and>
         (\<not> gitignoreCorrectlySet content \<longrightarrow>
            snd (JsGitignoreCorrectlySet_evaluate ctx) = Inr notPracticing)"
  using assms
  by (simp add: JsGitignoreCorrectlySet_evaluate_def gitignoreVerdict_listed)

lemma parseGitignore_gitignoreYarn:
  "parseGitignore gitignoreYarn =
     [lit ''/node_modules'', lit ''coverage'', lit ''*.log'', lit ''yarn.lock'']"
  by (simp add: parseGitignore_def gitignoreYarn_def lit_def trim_def isWhiteSpace_def
      startsWith_def)

lemma parseGitignore_gitignoreBoth:
  "parseGitignore gitignoreBoth =
     [lit ''/node_modules'', lit ''coverage'', lit ''*.log'', lit ''yarn.lock'',
      lit ''package-lock.json'']"
  by (simp add: parseGitignore_def gitignoreBoth_def gitignoreYarn_def lit_def trim_def
      isWhiteSpace_def startsWith_def)

lemma evaluate_gitignoreYarn:
  "snd (JsGitignoreCorrectlySet_evaluate
     \<lparr> fileInspector = None,
       root = \<lparr> root_fileInspector = Some (inspectorOf gitignoreYarn) \<rparr> \<rparr>) = Inr practicing"
  by (simp add: JsGitignoreCorrectlySet_evaluate_def inspectorOf_def
      parseGitignore_gitignoreYarn gitignoreVerdict_def lit_def)

lemma parseGitignore_gitignoreCommented: "parseGitignore gitignoreCommented = []"
  by (simp add: parseGitignore_def gitignoreCommented_def lit_def trim_def isWhiteSpace_def
      startsWith_def)

lemma evaluate_gitignoreCommented:
  "snd (JsGitignoreCorrectlySet_evaluate
     \<lparr> fileInspector = None,
       root = \<lparr> root_fileInspector = Some (inspectorOf gitignoreCommented) \<rparr> \<rparr>) =
   Inr notPracticing"
  by (simp add: JsGitignoreCorrectlySet_evaluate_def inspectorOf_def
      parseGitignore_gitignoreCommented gitignoreVerdict_def)

lemma evaluate_gitignoreBoth:
  "snd (JsGitignoreCorrectlySet_evaluate
     \<lparr> fileInspector = None,
       root = \<lparr> root_fileInspector = Some (inspectorOf gitignoreBoth) \<rparr> \<rparr>) = Inr notPracticing"
  by (simp add: JsGitignoreCorrectlySet_evaluate_def inspectorOf_def
      parseGitignore_gitignoreBoth gitignoreVerdict_def lit_def)

theorem evaluate_practicing_iff_witness:
  "snd (JsGitignoreCorrectlySet_evaluate
     \<lparr> fileInspector = None,
       root = \<lparr> root_fileInspector = Some (inspectorOf gitignoreYarn) \<rparr> \<rparr>) = Inr practicing \<and>
   gitignoreCorrectlySet gitignoreYarn \<and>
   snd (JsGitignoreCorrectlySet_evaluate
     \<lparr> fileInspector = None,
       root = \<lparr> root_fileInspector = Some (inspectorOf gitignoreBoth) \<rparr> \<rparr>) = Inr notPracticing \<and>
   \<not> gitignoreCorrectlySet gitignoreBoth \<and>
   snd (JsGitignoreCorrectlySet_evaluate
     \<lparr> fileInspector = None,
       root = \<lparr> root_fileInspector = Some (inspectorOf gitignoreCommented) \<rparr> \<rparr>) =
     Inr notPracticing \<and>
   \<not> gitignoreCorrectlySet gitignoreCommented"
  using
    evaluate_practicing_iff
      [of "\<lparr> fileInspector = None,
             root = \<lparr> root_fileInspector = Some (inspectorOf gitignoreYarn) \<rparr> \<rparr>"
          "inspectorOf gitignoreYarn" gitignoreYarn]
    evaluate_practicing_iff
      [of "\<lparr> fileInspector = None,
             root = \<lparr> root_fileInspector = Some (inspectorOf gitignoreBoth) \<rparr> \<rparr>"
          "inspectorOf gitignoreBoth" gitignoreBoth]
    evaluate_practicing_iff
      [of "\<lparr> fileInspector = None,
             root = \<lparr> root_fileInspector = Some (inspectorOf gitignoreCommented) \<rparr> \<rparr>"
          "inspectorOf gitignoreCommented" gitignoreCommented]
    evaluate_gitignoreYarn evaluate_gitignoreBoth evaluate_gitignoreCommented
  by (simp add: inspectorOf_def)

section \<open>Properties of the scanner\<close>

subsection \<open>The evaluation loop\<close>

lemma evaluateCalls_append: "evaluateCalls (xs @ ys) = evaluateCalls xs @ evaluateCalls ys"
  by (induction xs rule: evaluateCalls.induct) simp_all

lemma evaluateCalls_mem: "EvaluateCalled x \<in> set es \<longleftrightarrow> x \<in> set (evaluateCalls es)"
  by (induction es rule: evaluateCalls.induct) auto

lemma evaluatePractices_append:
  "evaluatePractices u cc (xs @ ys) st = evaluatePractices u cc ys (evaluatePractices u cc xs st)"
  by (induction xs arbitrary: st) simp_all

text \<open>One turn of the loop leaves the state as it is, or adds one call and one record.\<close>

lemma evaluatePractice_cases:
  "evaluatePractice u cc p st = st \<and> \<not> isFulfilled u p (snd st) \<or>
   isFulfilled u p (snd st) \<and>
   (\<exists>ev v. evaluatePractice u cc p st =
      (fst st @ EvaluateCalled (pid p) # ev,
       snd st @ [\<lparr> componentContext = cc, practiceContext = getPracticeContext cc,
                   practice = p, evaluation = v, isOn = True \<rparr>]) \<and>
      evaluateCalls ev = [] \<and> (\<forall>m. DebugOutput m \<notin> set ev) \<and>
      v = (case evaluate p (getPracticeContext cc) (getOverriddenPractice cc (pid p)) of
             Inl e \<Rightarrow> unknown | Inr r \<Rightarrow> r))"
  by (cases st) (auto simp: evaluatePractice_def Let_def split: sum.splits)

lemma calls_step:
  "evaluateCalls (fst st) = map rid (snd st) \<Longrightarrow>
   evaluateCalls (fst (evaluatePractice u cc p st)) = map rid (snd (evaluatePractice u cc p st))"
  using evaluatePractice_cases [of u cc p st]
  by (auto simp: evaluateCalls_append)

lemma calls_loop:
  "evaluateCalls (fst st) = map rid (snd st) \<Longrightarrow>
   evaluateCalls (fst (evaluatePractices u cc ps st)) = map rid (snd (evaluatePractices u cc ps st))"
  by (induction ps arbitrary: st) (simp_all add: calls_step)

lemma subseq_step:
  "subseq (map rid (snd st)) pre \<Longrightarrow>
   subseq (map rid (snd (evaluatePractice u cc p st))) (pre @ [pid p])"
  using evaluatePractice_cases [of u cc p st]
  by (auto intro: subseq_rev_drop_many list_emb_append_mono)

lemma subseq_loop:
  "subseq (map rid (snd st)) pre \<Longrightarrow>
   subseq (map rid (snd (evaluatePractices u cc ps st))) (pre @ map pid ps)"
proof (induction ps arbitrary: st pre)
  case Nil
  then show ?case by simp
next
  case (Cons p ps)
  from Cons.IH [OF subseq_step [OF Cons.prems, of u cc p]]
  show ?case by simp
qed

lemma isOn_step:
  "\<forall>r \<in> set (snd st). isOn r \<and> componentContext r = cc \<Longrightarrow>
   \<forall>r \<in> set (snd (evaluatePractice u cc p st)). isOn r \<and> componentContext r = cc"
  using evaluatePractice_cases [of u cc p st] by auto

lemma isOn_loop:
  "\<forall>r \<in> set (snd st). isOn r \<and> componentContext r = cc \<Longrightarrow>
   \<forall>r \<in> set (snd (evaluatePractices u cc ps st)). isOn r \<and> componentContext r = cc"
proof (induction ps arbitrary: st)
  case Nil
  then show ?case by simp
next
  case (Cons p ps)
  from Cons.IH [OF isOn_step [OF Cons.prems, of u p]]
  show ?case by simp
qed

lemma gated_step: "gated u (snd st) \<Longrightarrow> gated u (snd (evaluatePractice u cc p st))"
  using evaluatePractice_cases [of u cc p st]
  by (auto simp: gated_def nth_append less_Suc_eq)

lemma gated_loop: "gated u (snd st) \<Longrightarrow> gated u (snd (evaluatePractices u cc ps st))"
  by (induction ps arbitrary: st) (simp_all add: gated_step)

lemma noDebugOutput_step:
  "\<forall>m. DebugOutput m \<notin> set (fst st) \<Longrightarrow>
   \<forall>m. DebugOutput m \<notin> set (fst (evaluatePractice u cc p st))"
  using evaluatePractice_cases [of u cc p st] by auto

lemma noDebugOutput_loop:
  "\<forall>m. DebugOutput m \<notin> set (fst st) \<Longrightarrow>
   \<forall>m. DebugOutput m \<notin> set (fst (evaluatePractices u cc ps st))"
proof (induction ps arbitrary: st)
  case Nil
  then show ?case by simp
next
  case (Cons p ps)
  from Cons.IH [OF noDebugOutput_step [OF Cons.prems, of u cc p]]
  show ?case by simp
qed

lemma evaluatePractice_grows:
  "\<exists>ev rs. evaluatePractice u cc p st = (fst st @ ev, snd st @ rs)"
  using evaluatePractice_cases [of u cc p st] by (cases st) auto

lemma evaluatePractices_grows:
  "\<exists>ev rs. evaluatePractices u cc ps st = (fst st @ ev, snd st @ rs)"
proof (induction ps arbitrary: st)
  case Nil
  show ?case by (cases st) simp
next
  case (Cons p ps)
  obtain ev rs where 1: "evaluatePractice u cc p st = (fst st @ ev, snd st @ rs)"
    using evaluatePractice_grows by blast
  obtain ev' rs' where "evaluatePractices u cc ps (evaluatePractice u cc p st) =
      (fst (evaluatePractice u cc p st) @ ev', snd (evaluatePractice u cc p st) @ rs')"
    using Cons.IH by blast
  with 1 show ?case by simp
qed

text \<open>
  A practice whose \<^verbatim>\<open>evaluate\<close> throws gets the record \<open>unknown\<close> and the loop goes on with the
  practices after it; a practice that is fulfilled at its turn is evaluated, whatever the
  practices before it did.
\<close>

lemma throwing_practice_yields_unknown:
  assumes "isFulfilled u P (snd st)"
    and "evaluate P (getPracticeContext cc) (getOverriddenPractice cc (pid P)) = Inl err"
  shows "evaluatePractices u cc (P # post) st =
     evaluatePractices u cc post
       (fst st @
          [EvaluateCalled (pid P),
           DebuggerCreated (''The '' @ name (getMetadata P) @
             '' practice failed with this error:'' @ [CHR 0x0A] @ err)],
        snd st @
          [\<lparr> componentContext = cc, practiceContext = getPracticeContext cc,
             practice = P, evaluation = unknown, isOn = True \<rparr>])"
  using assms by (simp add: evaluatePractice_def)

lemma fulfilled_practice_is_evaluated:
  assumes "isFulfilled u P (snd (evaluatePractices u cc pre st))"
  shows "EvaluateCalled (pid P) \<in> set (fst (evaluatePractices u cc (pre @ P # post) st)) \<and>
         \<lparr> componentContext = cc, practiceContext = getPracticeContext cc, practice = P,
           evaluation =
             (case evaluate P (getPracticeContext cc) (getOverriddenPractice cc (pid P)) of
                Inl e \<Rightarrow> unknown | Inr v \<Rightarrow> v),
           isOn = True \<rparr> \<in> set (snd (evaluatePractices u cc (pre @ P # post) st))"
proof -
  let ?st = "evaluatePractices u cc pre st"
  let ?st' = "evaluatePractice u cc P ?st"
  obtain ev rs where out: "evaluatePractices u cc post ?st' = (fst ?st' @ ev, snd ?st' @ rs)"
    using evaluatePractices_grows by blast
  have "evaluatePractices u cc (pre @ P # post) st = evaluatePractices u cc post ?st'"
    by (simp add: evaluatePractices_append)
  with out have all: "evaluatePractices u cc (pre @ P # post) st = (fst ?st' @ ev, snd ?st' @ rs)"
    by simp
  from assms evaluatePractice_cases [of u cc P ?st]
  show ?thesis by (auto simp: all)
qed

subsection \<open>One component and one run\<close>

lemma subseq_set_subset: "subseq xs ys \<Longrightarrow> set xs \<subseteq> set ys"
  using list_emb_set [of "(=)" xs ys] by auto

lemma subseq_distinct: "subseq xs ys \<Longrightarrow> distinct ys \<Longrightarrow> distinct xs"
  using subseqs_distinctD [of xs ys] by simp


lemma rid_practiceOff: "map rid (map (practiceOffWithContext cc) ps) = map pid ps"
  by (simp add: practiceOffWithContext_def)

lemma evaluatePractices_from_empty:
  defines "out \<equiv> \<lambda>u cc ps. evaluatePractices u cc ps ([], [])"
  shows "subseq (map rid (snd (out u cc ps))) (map pid ps)"
    and "evaluateCalls (fst (out u cc ps)) = map rid (snd (out u cc ps))"
    and "\<forall>r \<in> set (snd (out u cc ps)). isOn r \<and> componentContext r = cc"
    and "gated u (snd (out u cc ps))"
    and "\<forall>m. DebugOutput m \<notin> set (fst (out u cc ps))"
  unfolding out_def
  using subseq_loop [of "([], [])" "[]" u cc ps] calls_loop [of "([], [])" u cc ps]
    isOn_loop [of "([], [])" cc u ps] gated_loop [of u "([], [])" cc ps]
    noDebugOutput_loop [of "([], [])" u cc ps]
  by (simp_all add: gated_def)

lemma detectPracticesForComponent_Inr:
  assumes "sortPractices u (customApplicablePractices (filterPractices u cc practices)) = Inr ordered"
  shows "detectPracticesForComponent u practices cc =
           (fst (evaluatePractices u cc ordered ([], [])),
            Inr (snd (evaluatePractices u cc ordered ([], [])) @
                 map (practiceOffWithContext cc) (practicesOff (filterPractices u cc practices))))"
  using assms by (simp add: detectPracticesForComponent_def Let_def split: prod.splits)

lemma detectPracticesForComponent_Inl:
  assumes "sortPractices u (customApplicablePractices (filterPractices u cc practices)) = Inl e"
  shows "detectPracticesForComponent u practices cc = ([], Inl e)"
  using assms by (simp add: detectPracticesForComponent_def Let_def)

lemma detectPracticesForComponent_cases:
  "snd (detectPracticesForComponent u practices cc) = Inr rs \<Longrightarrow>
   \<exists>ordered. sortPractices u (customApplicablePractices (filterPractices u cc practices)) = Inr ordered"
  by (cases "sortPractices u (customApplicablePractices (filterPractices u cc practices))")
     (simp_all add: detectPracticesForComponent_Inl)

lemma component_records_distinct:
  assumes "sortPractices u (customApplicablePractices (filterPractices u cc practices)) = Inr ordered"
    and "distinct (map pid (ordered @ practicesOff (filterPractices u cc practices)))"
    and "snd (detectPracticesForComponent u practices cc) = Inr rs"
  shows "distinct (map rid rs)" and "\<forall>r \<in> set rs. componentContext r = cc"
proof -
  let ?ev = "snd (evaluatePractices u cc ordered ([], []))"
  let ?off = "practicesOff (filterPractices u cc practices)"
  have rs: "rs = ?ev @ map (practiceOffWithContext cc) ?off"
    using assms(3) detectPracticesForComponent_Inr [OF assms(1)] by simp
  have sub: "subseq (map rid ?ev) (map pid ordered)"
    by (rule evaluatePractices_from_empty(1))
  from assms(2) have d1: "distinct (map pid ordered)" and d2: "distinct (map pid ?off)"
    and d3: "set (map pid ordered) \<inter> set (map pid ?off) = {}"
    by auto
  have "distinct (map rid ?ev)" using sub d1 by (rule subseq_distinct)
  moreover have "set (map rid ?ev) \<inter> set (map pid ?off) = {}"
    using subseq_set_subset [OF sub] d3 by blast
  ultimately show "distinct (map rid rs)"
    using d2 by (simp add: rs rid_practiceOff del: map_map)
  show "\<forall>r \<in> set rs. componentContext r = cc"
    using evaluatePractices_from_empty(3) [of u cc ordered]
    by (auto simp: rs practiceOffWithContext_def)
qed

lemma promiseAll_Inr: "promiseAll xs = Inr vs \<Longrightarrow> xs = map Inr vs"
  by (induction xs arbitrary: vs rule: promiseAll.induct) (auto split: sum.splits)

lemma promiseAll_map_Inr: "promiseAll (map Inr vs) = Inr vs"
  by (induction vs) simp_all

lemma promiseAll_Inl: "Inl e \<in> set xs \<Longrightarrow> isl (promiseAll xs)"
  by (induction xs rule: promiseAll.induct) (auto split: sum.splits)

lemma detectPractices_Inr:
  assumes "snd (detectPractices u practices comps) = Inr rs"
  shows "\<exists>vss. map (\<lambda>cc. snd (detectPracticesForComponent u practices cc)) comps = map Inr vss \<and>
               rs = concat vss"
proof -
  let ?xs = "map snd (map (detectPracticesForComponent u practices) comps)"
  obtain vss where v: "promiseAll ?xs = Inr vss" and rs: "rs = concat vss"
    using assms by (auto simp: detectPractices_def Let_def split: sum.splits)
  from promiseAll_Inr [OF v] have "?xs = map Inr vss" .
  with rs show ?thesis by (auto simp: comp_def)
qed

lemma detectPracticesForComponent_writes_no_debug_output:
  "DebugOutput m \<notin> set (fst (detectPracticesForComponent u practices cc))"
proof (cases "sortPractices u (customApplicablePractices (filterPractices u cc practices))")
  case (Inl e)
  then show ?thesis by (simp add: detectPracticesForComponent_Inl)
next
  case (Inr ordered)
  then show ?thesis
    using evaluatePractices_from_empty(5) [of u cc ordered]
    by (simp add: detectPracticesForComponent_Inr)
qed

lemma filter_distinct_key:
  "distinct (map f xs) \<Longrightarrow> x \<in> set xs \<Longrightarrow> filter (\<lambda>y. f y = f x) xs = [x]"
proof (induction xs)
  case Nil
  then show ?case by simp
next
  case (Cons a xs)
  show ?case
  proof (cases "a = x")
    case True
    from Cons.prems(1) True have "f x \<notin> f ` set xs" by simp
    then have "\<forall>y \<in> set xs. f y \<noteq> f x" by (metis imageI)
    then have "filter (\<lambda>y. f y = f x) xs = []"
      by (simp add: filter_empty_conv)
    with True show ?thesis by simp
  next
    case False
    with Cons.prems have "x \<in> set xs" and "f a \<noteq> f x" by auto
    with Cons show ?thesis by simp
  qed
qed

lemma run_records_distinct:
  assumes "distinct (map projectComponent comps)"
    and "map (\<lambda>cc. snd (detectPracticesForComponent u practices cc)) comps = map Inr vss"
    and "\<forall>cc \<in> set comps. \<forall>ordered.
           sortPractices u (customApplicablePractices (filterPractices u cc practices)) = Inr ordered \<longrightarrow>
           distinct (map pid (ordered @ practicesOff (filterPractices u cc practices)))"
  shows "distinct (map recordKey (concat vss)) \<and>
         (\<forall>r \<in> set (concat vss). componentContext r \<in> set comps)"
  using assms
proof (induction comps arbitrary: vss)
  case Nil
  then show ?case by simp
next
  case (Cons cc comps)
  from Cons.prems(2) obtain vs vss' where vss: "vss = vs # vss'"
    and vs: "snd (detectPracticesForComponent u practices cc) = Inr vs"
    and rest: "map (\<lambda>cc. snd (detectPracticesForComponent u practices cc)) comps = map Inr vss'"
    by (cases vss) auto
  from detectPracticesForComponent_cases [OF vs] obtain ordered where
    ord: "sortPractices u (customApplicablePractices (filterPractices u cc practices)) = Inr ordered"
    by blast
  with Cons.prems(3) have
    d: "distinct (map pid (ordered @ practicesOff (filterPractices u cc practices)))"
    by simp
  note one = component_records_distinct [OF ord d vs]
  have ih: "distinct (map recordKey (concat vss')) \<and>
            (\<forall>r \<in> set (concat vss'). componentContext r \<in> set comps)"
    using Cons.IH [OF _ rest] Cons.prems(1,3) by simp
  have here: "distinct (map recordKey vs)"
    using one(1) by (simp add: distinct_map inj_on_def)
  have apart: "set (map recordKey vs) \<inter> set (map recordKey (concat vss')) = {}"
  proof -
    have "projectComponent cc \<notin> projectComponent ` set comps"
      using Cons.prems(1) by simp
    with one(2) ih show ?thesis by (auto simp: image_iff) 
  qed
  have mem: "\<forall>r \<in> set (concat vss). componentContext r \<in> set (cc # comps)"
    using ih one(2) by (auto simp: vss)
  have "distinct (map recordKey (concat vss))"
    using here apart ih by (simp add: vss)
  with mem show ?case by blast
qed

subsection \<open>The helpers as the spec describes them\<close>

lemma takeFirst_mset: "takeFirst P xs = Some (y, ys) \<Longrightarrow> mset xs = add_mset y (mset ys)"
  by (induction xs arbitrary: y ys) (auto split: if_splits option.splits)

lemma specSortLoop_mset:
  "specSortLoop ids placed remaining = Inr out \<Longrightarrow> mset out = mset placed + mset remaining"
proof (induction ids placed remaining rule: specSortLoop.induct)
  case (1 ids placed remaining)
  show ?case
  proof (cases "remaining = []")
    case True
    with "1.prems" show ?thesis by (simp add: specSortLoop.simps)
  next
    case False
    with "1.prems" obtain p rest where
      t: "takeFirst (placeable ids (map pid placed)) remaining = Some (p, rest)"
      and r: "specSortLoop ids (placed @ [p]) rest = Inr out"
      by (subst (asm) specSortLoop.simps) (auto split: option.splits)
    from "1.IH" [OF False t refl r] takeFirst_mset [OF t]
    show ?thesis by simp
  qed
qed

lemma specSortPractices_mset: "specSortPractices ps = Inr out \<Longrightarrow> mset out = mset ps"
  using specSortLoop_mset [of "map pid ps" "[]" ps out] by (simp add: specSortPractices_def)

lemma distinct_map_filter_split:
  "distinct (map f xs) \<Longrightarrow> distinct (map f (filter P xs) @ map f (filter (\<lambda>x. \<not> P x) xs))"
  by (induction xs) auto

lemma specScannerUtils_distinct:
  assumes "distinct (map pid practices)"
    and "sortPractices specScannerUtils
           (customApplicablePractices (filterPractices specScannerUtils cc practices)) = Inr ordered"
  shows "distinct (map pid (ordered @ practicesOff (filterPractices specScannerUtils cc practices)))"
proof -
  let ?app = "filter (\<lambda>p. isApplicable p (getPracticeContext cc)) practices"
  let ?on = "filter (\<lambda>p. enabled (getOverriddenPractice cc (pid p))) ?app"
  let ?off = "filter (\<lambda>p. \<not> enabled (getOverriddenPractice cc (pid p))) ?app"
  from assms(2) have "specSortPractices ?on = Inr ordered"
    by (simp add: specScannerUtils_def specFilterPractices_def Let_def)
  then have "mset ordered = mset ?on" by (rule specSortPractices_mset)
  then have "mset (map pid ordered @ map pid ?off) = mset (map pid ?on @ map pid ?off)"
    by simp
  moreover have "distinct (map pid ?on @ map pid ?off)"
    using assms(1) by (intro distinct_map_filter_split) (simp add: distinct_map_filter)
  ultimately have "distinct (map pid ordered @ map pid ?off)"
    using mset_eq_imp_distinct_iff by blast
  then show ?thesis
    by (simp add: specScannerUtils_def specFilterPractices_def Let_def)
qed

text \<open>A cycle among the practices it is handed makes the resolver fail, and the fault names it.\<close>

lemma takeFirst_Some:
  "takeFirst P xs = Some (y, ys) \<Longrightarrow> P y \<and> set xs = insert y (set ys)"
  by (induction xs arbitrary: y ys) (auto split: if_splits option.splits)

lemma dependencyCycle_member:
  assumes "dependencyCycle ps cycle" and "p \<in> set ps" and "pid p \<in> set cycle"
  shows "\<exists>d \<in> set (dependsOn_practicing (getMetadata p) @ dependsOn_notPracticing (getMetadata p)).
           d \<in> set cycle"
proof -
  have "length cycle = length (rotate1 cycle)" by simp
  from in_set_impl_in_set_zip1 [OF this assms(3)] obtain b where
    z: "(pid p, b) \<in> set (zip cycle (rotate1 cycle))" by blast
  then have "b \<in> set (rotate1 cycle)" by (rule set_zip_rightD)
  then have "b \<in> set cycle" by simp
  moreover from assms(1,2) z have
    "b \<in> set (dependsOn_practicing (getMetadata p) @ dependsOn_notPracticing (getMetadata p))"
    unfolding dependencyCycle_def by blast
  ultimately show ?thesis by blast
qed

lemma specSortLoop_cycle:
  assumes "dependencyCycle ps cycle"
  shows "ids = map pid ps \<Longrightarrow> set remaining \<subseteq> set ps \<Longrightarrow>
         set cycle \<subseteq> set (map pid remaining) \<Longrightarrow> set cycle \<inter> set (map pid placed) = {} \<Longrightarrow>
         \<exists>members. specSortLoop ids placed remaining = Inl (DependencyCycleFault members) \<and>
                    set cycle \<subseteq> set members"
proof (induction ids placed remaining rule: specSortLoop.induct)
  case (1 ids placed remaining)
  from assms have ne: "cycle \<noteq> []" and sub: "set cycle \<subseteq> set (map pid ps)"
    unfolding dependencyCycle_def by blast+
  from ne "1.prems"(3) have rem: "remaining \<noteq> []" by (cases cycle) auto
  show ?case
  proof (cases "takeFirst (placeable ids (map pid placed)) remaining")
    case None
    with rem "1.prems"(3) show ?thesis
      by (subst specSortLoop.simps) simp
  next
    case (Some a)
    obtain p rest where a: "a = (p, rest)" by (cases a)
    with Some have t: "takeFirst (placeable ids (map pid placed)) remaining = Some (p, rest)"
      by simp
    from takeFirst_Some [OF t] have pl: "placeable ids (map pid placed) p"
      and set: "set remaining = insert p (set rest)" by blast+
    have pin: "p \<in> set ps" using set "1.prems"(2) by auto
    have notin: "pid p \<notin> set cycle"
    proof
      assume "pid p \<in> set cycle"
      from dependencyCycle_member [OF assms pin this] obtain d where
        d: "d \<in> set (dependsOn_practicing (getMetadata p) @ dependsOn_notPracticing (getMetadata p))"
        and dc: "d \<in> set cycle" by blast
      from pl d have "d \<in> set (map pid placed) \<or> d \<notin> set ids"
        unfolding placeable_def by (auto simp: list_all_iff)
      moreover from dc "1.prems"(4) have "d \<notin> set (map pid placed)" by blast
      moreover from dc sub "1.prems"(1) have "d \<in> set ids" by blast
      ultimately show False by blast
    qed
    have r1: "set rest \<subseteq> set ps" using set "1.prems"(2) by auto
    have r2: "set cycle \<subseteq> set (map pid rest)"
      using "1.prems"(3) notin set by auto
    have r3: "set cycle \<inter> set (map pid (placed @ [p])) = {}"
      using "1.prems"(4) notin by auto
    from "1.IH" [OF rem t refl "1.prems"(1) r1 r2 r3] rem t
    show ?thesis by (subst specSortLoop.simps) simp
  qed
qed

lemma specSortPractices_cycle:
  assumes "dependencyCycle ps cycle"
  shows "\<exists>members. specSortPractices ps = Inl (DependencyCycleFault members) \<and>
                    set cycle \<subseteq> set members"
proof -
  from assms have "set cycle \<subseteq> set (map pid ps)" unfolding dependencyCycle_def by blast
  from specSortLoop_cycle [OF assms refl _ this, of "[]"] show ?thesis
    by (simp add: specSortPractices_def)
qed

subsection \<open>Evaluating the examples\<close>

lemmas example_defs =
  detectPracticesForComponent_def specScannerUtils_def specFilterPractices_def
  specSortPractices_def specSortLoop.simps placeable_def evaluatePractice_def
  specIsFulfilled_def practiceOffWithContext_def examplePractice_def exampleComponent_def
  lockfilePresent_def exactOneLockfile_def practiceY_def practiceThrows_def practiceP_def
  practiceQ_def practiceX_def summary_def reportSummary_def exampleRecord_def Let_def

subsection \<open>Reporting\<close>

text \<open>
  C1, as the code has it. \<^verbatim>\<open>Scanner.report\<close> takes \<^verbatim>\<open>relevantPractices\<close> to be all of
  \<^verbatim>\<open>practicesWithContext\<close>: when the run succeeds, the reporter is handed one object for every
  record of every component, in the order of the components and, within a component, of its
  result set, each with the metadata of its practice. No record is dropped for
  \<^verbatim>\<open>reportOnlyOnce\<close>; the flag travels to the reporter inside the metadata.
\<close>

theorem report_hands_over_every_record:
  assumes "snd (detectPractices u practices comps) = Inr ps"
  shows "scan u practices comps = Inr (report ps) \<and>
         map (\<lambda>r. (report_practice r, report_component r)) (report ps) =
           map (\<lambda>p. (getMetadata (practice p), projectComponent (componentContext p))) ps \<and>
         (\<exists>vss. map (\<lambda>cc. snd (detectPracticesForComponent u practices cc)) comps = map Inr vss \<and>
                ps = concat vss)"
  using assms detectPractices_Inr [OF assms]
  by (simp add: scan_def report_def Let_def)

lemma run_practiceY:
  "snd (detectPractices specScannerUtils [practiceY]
     [exampleComponent ''/a'' ''TypeScript'' [] [], exampleComponent ''/b'' ''JavaScript'' [] []]) =
   Inr [exampleRecord (exampleComponent ''/a'' ''TypeScript'' [] []) practiceY notPracticing True,
        exampleRecord (exampleComponent ''/b'' ''JavaScript'' [] []) practiceY notPracticing True]"
  by (simp add: detectPractices_def example_defs)

theorem report_hands_over_every_record_witness:
  "scan specScannerUtils [practiceY]
     [exampleComponent ''/a'' ''TypeScript'' [] [], exampleComponent ''/b'' ''JavaScript'' [] []] =
   Inr (report
     [exampleRecord (exampleComponent ''/a'' ''TypeScript'' [] []) practiceY notPracticing True,
      exampleRecord (exampleComponent ''/b'' ''JavaScript'' [] []) practiceY notPracticing True]) \<and>
   map (\<lambda>r. (report_practice r, report_component r))
     (report
       [exampleRecord (exampleComponent ''/a'' ''TypeScript'' [] []) practiceY notPracticing True,
        exampleRecord (exampleComponent ''/b'' ''JavaScript'' [] []) practiceY notPracticing True]) =
   [(getMetadata practiceY, ''/a''), (getMetadata practiceY, ''/b'')]"
  using report_hands_over_every_record [OF run_practiceY]
  by (simp add: example_defs)

text \<open>
  C1 as stated fails: two components to which a \<^verbatim>\<open>reportOnlyOnce\<close> practice \<open>Y\<close> applies, both
  evaluating to \<open>notPracticing\<close>, give the reporter two objects for \<open>Y\<close>, the second from the
  component processed second.
\<close>

theorem report_reportOnlyOnce_counterexample:
  "map_sum id (map reportSummary)
     (scan specScannerUtils [practiceY]
        [exampleComponent ''/a'' ''TypeScript'' [] [], exampleComponent ''/b'' ''JavaScript'' [] []]) =
   Inr [(''Y'', ''/a'', True, notPracticing, high, True),
        (''Y'', ''/b'', True, notPracticing, high, True)]"
  by (simp add: scan_def run_practiceY report_def) (simp add: example_defs)

text \<open>
  C8. The object the reporter is handed for a record carries the overridden impact when the
  configuration of the record's component defines one for the practice, and the practice's
  declared impact otherwise; component, practice metadata, evaluation and \<^verbatim>\<open>isOn\<close> are those
  of the record, and there is one object per record.
\<close>

theorem report_impact_is_override_or_declared:
  assumes "i < length ps"
  shows "(case config_impact (getOverriddenPractice (componentContext (ps ! i)) (rid (ps ! i))) of
            Some overridden \<Rightarrow> report_impact (report ps ! i) = overridden
          | None \<Rightarrow> report_impact (report ps ! i) = impact (getMetadata (practice (ps ! i)))) \<and>
         report_component (report ps ! i) = projectComponent (componentContext (ps ! i)) \<and>
         report_practice (report ps ! i) = getMetadata (practice (ps ! i)) \<and>
         report_evaluation (report ps ! i) = evaluation (ps ! i) \<and>
         report_isOn (report ps ! i) = isOn (ps ! i) \<and>
         length (report ps) = length ps"
  using assms by (simp add: report_def Let_def split: option.splits)

theorem report_impact_witness:
  "reportSummary (report
     [exampleRecord (exampleComponent ''/a'' ''TypeScript'' [] [(''Y'', low)]) practiceY notPracticing True,
      exampleRecord (exampleComponent ''/a'' ''TypeScript'' [] [(''Y'', low)]) lockfilePresent practicing True]
     ! 0) = (''Y'', ''/a'', True, notPracticing, low, True) \<and>
   reportSummary (report
     [exampleRecord (exampleComponent ''/a'' ''TypeScript'' [] [(''Y'', low)]) practiceY notPracticing True,
      exampleRecord (exampleComponent ''/a'' ''TypeScript'' [] [(''Y'', low)]) lockfilePresent practicing True]
     ! 1) = (''lockfile-present'', ''/a'', False, practicing, high, True)"
proof -
  let ?cc = "exampleComponent ''/a'' ''TypeScript'' [] [(''Y'', low)]"
  let ?ps = "[exampleRecord ?cc practiceY notPracticing True,
              exampleRecord ?cc lockfilePresent practicing True]"
  have "0 < length ?ps" and "1 < length ?ps" by simp_all
  from report_impact_is_override_or_declared [OF this(1)]
    report_impact_is_override_or_declared [OF this(2)]
  show ?thesis by (simp add: example_defs)
qed

subsection \<open>A resolver that fails\<close>

text \<open>
  When \<^verbatim>\<open>sortPractices\<close> throws for one component, whatever the helpers are, that component's
  evaluation yields the error and neither event nor record, and nothing catches the error on
  its way up: \<^verbatim>\<open>Promise.all\<close> in \<^verbatim>\<open>detectPractices\<close> rejects, and so does \<^verbatim>\<open>scan\<close>, before
  \<^verbatim>\<open>report\<close> is reached, whatever the other components are.
\<close>

lemma sortPractices_failure_ends_the_scan:
  assumes "cc \<in> set comps"
    and "sortPractices u (customApplicablePractices (filterPractices u cc practices)) = Inl e"
  shows "detectPracticesForComponent u practices cc = ([], Inl e) \<and>
         isl (snd (detectPractices u practices comps)) \<and>
         isl (scan u practices comps)"
proof -
  have one: "detectPracticesForComponent u practices cc = ([], Inl e)"
    using assms(2) by (rule detectPracticesForComponent_Inl)
  with assms(1) have
    "Inl e \<in> set (map snd (map (detectPracticesForComponent u practices) comps))"
    by force
  then have "isl (promiseAll (map snd (map (detectPracticesForComponent u practices) comps)))"
    by (rule promiseAll_Inl)
  then have all: "isl (snd (detectPractices u practices comps))"
    by (auto simp: detectPractices_def Let_def split: sum.splits)
  then have "isl (scan u practices comps)"
    by (auto simp: scan_def split: sum.splits)
  with one all show ?thesis by simp
qed

text \<open>
  C2, as the code has it. If the dependency constraints of those applicable practices of one
  component that are not turned off contain a cycle, the resolver fails with a fault that
  names the members of the cycle, that component has no event and no record, and the fault
  ends the run: \<^verbatim>\<open>detectPractices\<close> and \<^verbatim>\<open>scan\<close> fail, and no component's result set reaches
  the reporter. (The helpers of \<^verbatim>\<open>ScannerUtils\<close> are the ones modelled from the spec.)
\<close>

theorem dependency_cycle_ends_the_scan:
  fixes cc :: "('p, 'c) ProjectComponentContext"
  assumes "cc \<in> set comps"
    and "dependencyCycle (customApplicablePractices (specFilterPractices cc practices)) cycle"
  shows "\<exists>members. set cycle \<subseteq> set members \<and>
           detectPracticesForComponent specScannerUtils practices cc =
             ([], Inl (DependencyCycleFault members)) \<and>
           isl (snd (detectPractices specScannerUtils practices comps)) \<and>
           isl (scan specScannerUtils practices comps)"
proof -
  let ?u = "specScannerUtils :: ('p, 'c) ScannerUtils"
  from specSortPractices_cycle [OF assms(2)] obtain members where
    m: "specSortPractices (customApplicablePractices (specFilterPractices cc practices)) =
          Inl (DependencyCycleFault members)"
    and c: "set cycle \<subseteq> set members"
    by blast
  from m have "sortPractices ?u (customApplicablePractices (filterPractices ?u cc practices)) =
      Inl (DependencyCycleFault members)"
    by (simp add: specScannerUtils_def)
  from sortPractices_failure_ends_the_scan [OF assms(1) this] c show ?thesis by blast
qed

lemma cycle_P_Q:
  "dependencyCycle
     (customApplicablePractices
        (specFilterPractices (exampleComponent ''/svc'' ''Java'' [] [])
           [practiceP, practiceQ, lockfilePresent]))
     [''P'', ''Q'']"
  by (simp add: dependencyCycle_def example_defs)

theorem dependency_cycle_ends_the_scan_witness:
  "\<exists>members. set [''P'', ''Q''] \<subseteq> set members \<and>
     detectPracticesForComponent specScannerUtils [practiceP, practiceQ, lockfilePresent]
       (exampleComponent ''/svc'' ''Java'' [] []) = ([], Inl (DependencyCycleFault members)) \<and>
     isl (snd (detectPractices specScannerUtils [practiceP, practiceQ, lockfilePresent]
       [exampleComponent ''/svc'' ''Java'' [] [], exampleComponent ''/web'' ''JavaScript'' [] []])) \<and>
     isl (scan specScannerUtils [practiceP, practiceQ, lockfilePresent]
       [exampleComponent ''/svc'' ''Java'' [] [], exampleComponent ''/web'' ''JavaScript'' [] []])"
  using dependency_cycle_ends_the_scan
    [of "exampleComponent ''/svc'' ''Java'' [] []"
        "[exampleComponent ''/svc'' ''Java'' [] [], exampleComponent ''/web'' ''JavaScript'' [] []]"
        "[practiceP, practiceQ, lockfilePresent]" "[''P'', ''Q'']", OF _ cycle_P_Q]
  by simp

text \<open>
  C2 as stated fails twice. With practices \<open>P\<close> and \<open>Q\<close> requiring each other on a Java
  component, the JavaScript component of the same run has a result set of its own, and the
  run yields none: \<^verbatim>\<open>detectPractices\<close> and \<^verbatim>\<open>scan\<close> end with the cycle fault. And when \<open>Q\<close> is
  turned off for the Java component, the applicable practices still hold the cycle, but only
  \<open>P\<close> is handed to the resolver: it does not fail, and the component has a record.
\<close>

theorem dependency_cycle_counterexample:
  "map_sum id (map summary)
     (snd (detectPracticesForComponent specScannerUtils [practiceP, practiceQ, lockfilePresent]
        (exampleComponent ''/web'' ''JavaScript'' [] []))) =
     Inr [(''lockfile-present'', ''/web'', notPracticing, True)] \<and>
   snd (detectPractices specScannerUtils [practiceP, practiceQ, lockfilePresent]
     [exampleComponent ''/svc'' ''Java'' [] [], exampleComponent ''/web'' ''JavaScript'' [] []]) =
     Inl (DependencyCycleFault [''P'', ''Q'']) \<and>
   scan specScannerUtils [practiceP, practiceQ, lockfilePresent]
     [exampleComponent ''/svc'' ''Java'' [] [], exampleComponent ''/web'' ''JavaScript'' [] []] =
     Inl (DependencyCycleFault [''P'', ''Q'']) \<and>
   dependencyCycle
     (filter (\<lambda>p. isApplicable p (getPracticeContext (exampleComponent ''/svc'' ''Java'' [''Q''] [])))
        [practiceP, practiceQ])
     [''P'', ''Q''] \<and>
   map_sum id (map summary)
     (snd (detectPracticesForComponent specScannerUtils [practiceP, practiceQ]
        (exampleComponent ''/svc'' ''Java'' [''Q''] []))) =
     Inr [(''Q'', ''/svc'', unknown, False)]"
  by (simp add: scan_def detectPractices_def dependencyCycle_def example_defs)

subsection \<open>Practices that are skipped, fail or are turned off\<close>

text \<open>
  C3. Let the resolved order of a component be \<open>pre @ P # post\<close> and \<open>earlier\<close> the records
  produced from \<open>pre\<close>. If some id in \<open>P\<close>'s \<^verbatim>\<open>requiresPracticing\<close> has no record in \<open>earlier\<close>
  with evaluation \<open>practicing\<close>, or some id in its \<^verbatim>\<open>requiresNotPracticing\<close> has none with
  evaluation \<open>notPracticing\<close>, then \<open>P\<close> is skipped: its \<^verbatim>\<open>evaluate\<close> is not called and the
  component's result set holds no record for it. (Ids in the catalog are unique; the helpers
  of \<^verbatim>\<open>ScannerUtils\<close> are the ones modelled from the spec.)
\<close>

theorem unfulfilled_practice_is_skipped:
  fixes cc :: "('p, 'c) ProjectComponentContext"
  assumes "distinct (map pid practices)"
    and "specSortPractices (customApplicablePractices (specFilterPractices cc practices)) =
           Inr (pre @ P # post)"
    and "earlier = snd (evaluatePractices specScannerUtils cc pre ([], []))"
    and "(\<exists>d \<in> set (dependsOn_practicing (getMetadata P)).
            \<not> (\<exists>r \<in> set earlier. rid r = d \<and> evaluation r = practicing)) \<or>
         (\<exists>d \<in> set (dependsOn_notPracticing (getMetadata P)).
            \<not> (\<exists>r \<in> set earlier. rid r = d \<and> evaluation r = notPracticing))"
  shows "\<exists>events rs. detectPracticesForComponent specScannerUtils practices cc = (events, Inr rs) \<and>
           EvaluateCalled (pid P) \<notin> set events \<and> pid P \<notin> set (map rid rs)"
proof -
  let ?u = "specScannerUtils :: ('p, 'c) ScannerUtils"
  let ?off = "practicesOff (filterPractices ?u cc practices)"
  have sorted: "sortPractices ?u (customApplicablePractices (filterPractices ?u cc practices)) =
      Inr (pre @ P # post)"
    using assms(2) by (simp add: specScannerUtils_def)
  have unmet: "\<not> isFulfilled ?u P earlier"
    using assms(4) by (auto simp: specScannerUtils_def specIsFulfilled_def list_all_iff list_ex_iff)
  let ?st = "evaluatePractices ?u cc pre ([], [])"
  have "evaluatePractice ?u cc P ?st = ?st"
    using unmet assms(3) by (simp add: evaluatePractice_def)
  then have loop: "evaluatePractices ?u cc (pre @ P # post) ([], []) =
      evaluatePractices ?u cc (pre @ post) ([], [])"
    by (simp add: evaluatePractices_append)
  let ?out = "evaluatePractices ?u cc (pre @ post) ([], [])"
  have d: "distinct (map pid ((pre @ P # post) @ ?off))"
    using specScannerUtils_distinct [OF assms(1) sorted] .
  have "set (map rid (snd ?out)) \<subseteq> set (map pid (pre @ post))"
    by (rule subseq_set_subset) (rule evaluatePractices_from_empty(1))
  with d have notin: "pid P \<notin> set (map rid (snd ?out))" by auto
  then have "pid P \<notin> set (evaluateCalls (fst ?out))"
    by (simp add: evaluatePractices_from_empty(2))
  then have calls: "EvaluateCalled (pid P) \<notin> set (fst ?out)"
    by (simp add: evaluateCalls_mem)
  from d have "pid P \<notin> set (map pid ?off)" by auto
  with notin have "pid P \<notin> set (map rid (snd ?out @ map (practiceOffWithContext cc) ?off))"
    by (simp add: rid_practiceOff del: map_map)
  moreover have "detectPracticesForComponent ?u practices cc =
      (fst ?out, Inr (snd ?out @ map (practiceOffWithContext cc) ?off))"
    using detectPracticesForComponent_Inr [OF sorted] by (simp add: loop)
  ultimately show ?thesis using calls by blast
qed

theorem unfulfilled_practice_is_skipped_witness:
  "(\<exists>d \<in> set (dependsOn_practicing (getMetadata exactOneLockfile)).
      \<not> (\<exists>r \<in> set [exampleRecord (exampleComponent ''/web'' ''JavaScript'' [] [])
                         lockfilePresent notPracticing True].
            rid r = d \<and> evaluation r = practicing)) \<and>
   (\<exists>events rs.
      detectPracticesForComponent specScannerUtils [lockfilePresent, exactOneLockfile]
        (exampleComponent ''/web'' ''JavaScript'' [] []) = (events, Inr rs) \<and>
      EvaluateCalled (pid exactOneLockfile) \<notin> set events \<and>
      pid exactOneLockfile \<notin> set (map rid rs))"
proof -
  let ?cc = "exampleComponent ''/web'' ''JavaScript'' [] []"
  let ?earlier = "[exampleRecord ?cc lockfilePresent notPracticing True]"
  have distinct: "distinct (map pid [lockfilePresent, exactOneLockfile])"
    by (simp add: example_defs)
  have sorted: "specSortPractices
      (customApplicablePractices (specFilterPractices ?cc [lockfilePresent, exactOneLockfile])) =
      Inr ([lockfilePresent] @ exactOneLockfile # [])"
    by (simp add: example_defs)
  have earlier: "?earlier = snd (evaluatePractices specScannerUtils ?cc [lockfilePresent] ([], []))"
    by (simp add: example_defs)
  have unmet: "\<exists>d \<in> set (dependsOn_practicing (getMetadata exactOneLockfile)).
      \<not> (\<exists>r \<in> set ?earlier. rid r = d \<and> evaluation r = practicing)"
    by (simp add: example_defs)
  from unfulfilled_practice_is_skipped [OF distinct sorted earlier disjI1 [OF unmet]] unmet
  show ?thesis by blast
qed

text \<open>
  C4, at a practice \<open>T\<close> whose \<^verbatim>\<open>evaluate\<close> throws. The failure is caught, \<open>T\<close> gets a record with
  evaluation \<open>unknown\<close>, and the next practice is evaluated. The failure is not logged: the
  catch block calls \<^verbatim>\<open>debug(message)\<close>, the factory, which creates a debugger named by the
  message and writes nothing, and the message carries the practice's name, not its id.
\<close>

theorem failing_evaluate_is_not_logged:
  "fst (detectPracticesForComponent specScannerUtils [practiceThrows, lockfilePresent]
     (exampleComponent ''/app'' ''TypeScript'' [] [])) =
     [EvaluateCalled ''T'',
      DebuggerCreated
        (''The Check T practice failed with this error:'' @ [CHR 0x0A] @ ''Error: boom''),
      EvaluateCalled ''lockfile-present''] \<and>
   map_sum id (map summary)
     (snd (detectPracticesForComponent specScannerUtils [practiceThrows, lockfilePresent]
        (exampleComponent ''/app'' ''TypeScript'' [] []))) =
     Inr [(''T'', ''/app'', unknown, True), (''lockfile-present'', ''/app'', practicing, True)]"
  by (simp add: example_defs)

text \<open>
  C5, as the code has it. For a practice that is applicable to a component and disabled for
  it by override, in a component whose evaluation the resolver does not end, the result set
  holds exactly one record, with evaluation \<open>unknown\<close> and \<^verbatim>\<open>isOn\<close> false, and \<^verbatim>\<open>evaluate\<close> is
  not called for it, whatever its dependency constraints are. (Ids in the catalog are
  unique; the helpers of \<^verbatim>\<open>ScannerUtils\<close> are the ones modelled from the spec.)
\<close>

theorem disabled_applicable_practice_has_one_record:
  fixes cc :: "('p, 'c) ProjectComponentContext"
  assumes "distinct (map pid practices)"
    and "P \<in> set practices"
    and "isApplicable P (getPracticeContext cc)"
    and "\<not> enabled (getOverriddenPractice cc (pid P))"
    and "detectPracticesForComponent specScannerUtils practices cc = (events, Inr rs)"
  shows "(\<exists>r. filter (\<lambda>r. rid r = pid P) rs = [r] \<and> practice r = P \<and>
               evaluation r = unknown \<and> \<not> isOn r) \<and>
         EvaluateCalled (pid P) \<notin> set events"
proof -
  let ?u = "specScannerUtils :: ('p, 'c) ScannerUtils"
  let ?off = "practicesOff (filterPractices ?u cc practices)"
  from assms(5) have "snd (detectPracticesForComponent ?u practices cc) = Inr rs" by simp
  from detectPracticesForComponent_cases [OF this] obtain ordered where
    sorted: "sortPractices ?u (customApplicablePractices (filterPractices ?u cc practices)) =
      Inr ordered"
    by blast
  let ?out = "evaluatePractices ?u cc ordered ([], [])"
  have shape: "events = fst ?out" "rs = snd ?out @ map (practiceOffWithContext cc) ?off"
    using assms(5) detectPracticesForComponent_Inr [OF sorted] by simp_all
  have d: "distinct (map pid (ordered @ ?off))"
    using specScannerUtils_distinct [OF assms(1) sorted] .
  have Poff: "P \<in> set ?off"
    using assms(2,3,4) by (simp add: specScannerUtils_def specFilterPractices_def Let_def)
  have drs: "distinct (map rid rs)"
    using component_records_distinct(1) [OF sorted d] assms(5) by simp
  have "practiceOffWithContext cc P \<in> set rs"
    using Poff by (simp add: shape)
  from filter_distinct_key [OF drs this]
  have one: "filter (\<lambda>r. rid r = pid P) rs = [practiceOffWithContext cc P]"
    by (simp add: practiceOffWithContext_def)
  have "set (map rid (snd ?out)) \<subseteq> set (map pid ordered)"
    by (rule subseq_set_subset) (rule evaluatePractices_from_empty(1))
  with d Poff have "pid P \<notin> set (map rid (snd ?out))" by auto
  then have "pid P \<notin> set (evaluateCalls (fst ?out))"
    by (simp add: evaluatePractices_from_empty(2))
  then have "EvaluateCalled (pid P) \<notin> set events"
    by (simp add: evaluateCalls_mem shape)
  with one show ?thesis by (simp add: practiceOffWithContext_def)
qed

lemma component_practiceX_off:
  "detectPracticesForComponent specScannerUtils [practiceX, lockfilePresent]
     (exampleComponent ''/svc'' ''Java'' [''X''] []) =
   ([EvaluateCalled ''lockfile-present''],
    Inr [exampleRecord (exampleComponent ''/svc'' ''Java'' [''X''] []) lockfilePresent practicing True,
         exampleRecord (exampleComponent ''/svc'' ''Java'' [''X''] []) practiceX unknown False])"
  by (simp add: example_defs)

theorem disabled_applicable_practice_has_one_record_witness:
  "(\<exists>r. filter (\<lambda>r. rid r = pid practiceX)
           [exampleRecord (exampleComponent ''/svc'' ''Java'' [''X''] []) lockfilePresent practicing True,
            exampleRecord (exampleComponent ''/svc'' ''Java'' [''X''] []) practiceX unknown False] = [r] \<and>
        practice r = practiceX \<and> evaluation r = unknown \<and> \<not> isOn r) \<and>
   EvaluateCalled (pid practiceX) \<notin> set [EvaluateCalled ''lockfile-present'']"
proof -
  let ?cc = "exampleComponent ''/svc'' ''Java'' [''X''] []"
  have "distinct (map pid [practiceX, lockfilePresent])" by (simp add: example_defs)
  moreover have "practiceX \<in> set [practiceX, lockfilePresent]" by simp
  moreover have "isApplicable practiceX (getPracticeContext ?cc)" by (simp add: example_defs)
  moreover have "\<not> enabled (getOverriddenPractice ?cc (pid practiceX))" by (simp add: example_defs)
  ultimately show ?thesis
    using component_practiceX_off
    by (rule disabled_applicable_practice_has_one_record)
qed

text \<open>
  C5 as stated fails twice: a practice \<open>X\<close> disabled for a component it is not applicable to
  has no record there, and a disabled, applicable \<open>X\<close> has none either when two other
  practices of the component require each other.
\<close>

theorem disabled_practice_counterexample:
  "\<not> enabled (getOverriddenPractice (exampleComponent ''/web'' ''JavaScript'' [''X''] []) ''X'') \<and>
   \<not> isApplicable practiceX (getPracticeContext (exampleComponent ''/web'' ''JavaScript'' [''X''] [])) \<and>
   map_sum id (map summary)
     (snd (detectPracticesForComponent specScannerUtils [practiceX, lockfilePresent]
        (exampleComponent ''/web'' ''JavaScript'' [''X''] []))) =
     Inr [(''lockfile-present'', ''/web'', notPracticing, True)] \<and>
   \<not> enabled (getOverriddenPractice (exampleComponent ''/svc'' ''Java'' [''X''] []) ''X'') \<and>
   isApplicable practiceX (getPracticeContext (exampleComponent ''/svc'' ''Java'' [''X''] [])) \<and>
   snd (detectPracticesForComponent specScannerUtils [practiceP, practiceQ, practiceX]
        (exampleComponent ''/svc'' ''Java'' [''X''] [])) =
     Inl (DependencyCycleFault [''P'', ''Q''])"
  by (simp add: example_defs)

subsection \<open>Records of a run\<close>

text \<open>
  C6. At most one record exists for a practice and a component in a run: over distinct
  components, whenever the ordered practices and the turned off practices of each component
  carry pairwise distinct ids (as they do with the helpers the spec describes and a catalog
  of unique ids, see \<open>specScannerUtils_distinct\<close>), the pairs (practice id, component)
  of the run's records are pairwise distinct. So no practice has both an evaluated and a
  turned off record for a component, nor two of either.
\<close>

theorem at_most_one_record_per_practice_and_component:
  assumes "distinct (map projectComponent comps)"
    and "\<forall>cc \<in> set comps. \<forall>ordered.
           sortPractices u (customApplicablePractices (filterPractices u cc practices)) = Inr ordered \<longrightarrow>
           distinct (map pid (ordered @ practicesOff (filterPractices u cc practices)))"
    and "snd (detectPractices u practices comps) = Inr rs"
  shows "distinct (map recordKey rs)"
proof -
  from detectPractices_Inr [OF assms(3)] obtain vss where
    v: "map (\<lambda>cc. snd (detectPracticesForComponent u practices cc)) comps = map Inr vss"
    and rs: "rs = concat vss"
    by blast
  from run_records_distinct [OF assms(1) v assms(2)] rs show ?thesis by simp
qed

lemma run_two_components:
  "snd (detectPractices specScannerUtils [lockfilePresent, exactOneLockfile, practiceY]
     [exampleComponent ''/a'' ''TypeScript'' [''Y''] [], exampleComponent ''/b'' ''JavaScript'' [] []]) =
   Inr [exampleRecord (exampleComponent ''/a'' ''TypeScript'' [''Y''] []) lockfilePresent practicing True,
        exampleRecord (exampleComponent ''/a'' ''TypeScript'' [''Y''] []) exactOneLockfile practicing True,
        exampleRecord (exampleComponent ''/a'' ''TypeScript'' [''Y''] []) practiceY unknown False,
        exampleRecord (exampleComponent ''/b'' ''JavaScript'' [] []) lockfilePresent notPracticing True,
        exampleRecord (exampleComponent ''/b'' ''JavaScript'' [] []) practiceY notPracticing True]"
  by (simp add: detectPractices_def example_defs)

theorem at_most_one_record_witness:
  "distinct (map recordKey
     [exampleRecord (exampleComponent ''/a'' ''TypeScript'' [''Y''] []) lockfilePresent practicing True,
      exampleRecord (exampleComponent ''/a'' ''TypeScript'' [''Y''] []) exactOneLockfile practicing True,
      exampleRecord (exampleComponent ''/a'' ''TypeScript'' [''Y''] []) practiceY unknown False,
      exampleRecord (exampleComponent ''/b'' ''JavaScript'' [] []) lockfilePresent notPracticing True,
      exampleRecord (exampleComponent ''/b'' ''JavaScript'' [] []) practiceY notPracticing True])"
proof -
  let ?cat = "[lockfilePresent, exactOneLockfile, practiceY]"
  let ?comps = "[exampleComponent ''/a'' ''TypeScript'' [''Y''] [],
                 exampleComponent ''/b'' ''JavaScript'' [] []]"
  have c: "distinct (map projectComponent ?comps)" by (simp add: example_defs)
  have "distinct (map pid ?cat)" by (simp add: example_defs)
  then have h: "\<forall>cc \<in> set ?comps. \<forall>ordered.
      sortPractices specScannerUtils
        (customApplicablePractices (filterPractices specScannerUtils cc ?cat)) = Inr ordered \<longrightarrow>
      distinct (map pid (ordered @ practicesOff (filterPractices specScannerUtils cc ?cat)))"
    using specScannerUtils_distinct by blast
  from at_most_one_record_per_practice_and_component [OF c h run_two_components]
  show ?thesis .
qed

text \<open>
  C7, as the code has it. In a component's result set, the record of a practice \<open>Q\<close> that
  \<open>P\<close> references in \<^verbatim>\<open>requiresPracticing\<close> or \<^verbatim>\<open>requiresNotPracticing\<close> stands strictly
  before the record of \<open>P\<close>, unless both are turned off. (Ids in the catalog are unique; the
  helpers of \<^verbatim>\<open>ScannerUtils\<close> are the ones modelled from the spec.)
\<close>

theorem dependency_record_precedes_dependent:
  fixes cc :: "('p, 'c) ProjectComponentContext"
  assumes "distinct (map pid practices)"
    and "snd (detectPracticesForComponent specScannerUtils practices cc) = Inr rs"
    and "i < length rs" and "j < length rs"
    and "rid (rs ! j) \<in> set (dependsOn_practicing (getMetadata (practice (rs ! i))) @
                              dependsOn_notPracticing (getMetadata (practice (rs ! i))))"
    and "isOn (rs ! i) \<or> isOn (rs ! j)"
  shows "j < i"
proof -
  let ?u = "specScannerUtils :: ('p, 'c) ScannerUtils"
  let ?off = "practicesOff (filterPractices ?u cc practices)"
  from detectPracticesForComponent_cases [OF assms(2)] obtain ordered where
    sorted: "sortPractices ?u (customApplicablePractices (filterPractices ?u cc practices)) =
      Inr ordered"
    by blast
  let ?ev = "snd (evaluatePractices ?u cc ordered ([], []))"
  have rs: "rs = ?ev @ map (practiceOffWithContext cc) ?off"
    using assms(2) detectPracticesForComponent_Inr [OF sorted] by simp
  have d: "distinct (map pid (ordered @ ?off))"
    using specScannerUtils_distinct [OF assms(1) sorted] .
  have drs: "distinct (map rid rs)"
    using component_records_distinct(1) [OF sorted d assms(2)] .
  have on: "\<And>k. k < length rs \<Longrightarrow> isOn (rs ! k) \<longleftrightarrow> k < length ?ev"
    using evaluatePractices_from_empty(3) [of ?u cc ordered]
    by (auto simp: rs nth_append practiceOffWithContext_def)
  show ?thesis
  proof (cases "isOn (rs ! i)")
    case True
    with on assms(3) have i: "i < length ?ev" by simp
    then have ri: "rs ! i = ?ev ! i" by (simp add: rs nth_append)
    have "gated ?u ?ev" by (rule evaluatePractices_from_empty(4))
    with i have "specIsFulfilled (practice (?ev ! i)) (take i ?ev)"
      by (simp add: gated_def specScannerUtils_def)
    with assms(5) ri have "\<exists>r \<in> set (take i ?ev). rid r = rid (rs ! j)"
      by (auto simp: specIsFulfilled_def list_all_iff list_ex_iff)
    then obtain k where k: "k < i" "rid (?ev ! k) = rid (rs ! j)"
      using i by (auto simp: in_set_conv_nth)
    with i have "rs ! k = ?ev ! k" and kl: "k < length rs"
      using assms(3) by (simp_all add: rs nth_append)
    with k have "map rid rs ! k = map rid rs ! j"
      using assms(4) by simp
    with drs kl assms(4) have "k = j"
      by (simp add: nth_eq_iff_index_eq del: nth_map)
    with k show ?thesis by simp
  next
    case False
    with assms(6) have "isOn (rs ! j)" by simp
    with on assms(4) have "j < length ?ev" by simp
    moreover from False on assms(3) have "\<not> i < length ?ev" by simp
    ultimately show ?thesis by simp
  qed
qed

lemma component_dependent_first:
  "snd (detectPracticesForComponent specScannerUtils [exactOneLockfile, lockfilePresent]
     (exampleComponent ''/a'' ''TypeScript'' [] [])) =
   Inr [exampleRecord (exampleComponent ''/a'' ''TypeScript'' [] []) lockfilePresent practicing True,
        exampleRecord (exampleComponent ''/a'' ''TypeScript'' [] []) exactOneLockfile practicing True]"
  by (simp add: example_defs)

theorem dependency_record_precedes_dependent_witness:
  "rid ([exampleRecord (exampleComponent ''/a'' ''TypeScript'' [] []) lockfilePresent practicing True,
         exampleRecord (exampleComponent ''/a'' ''TypeScript'' [] []) exactOneLockfile practicing True] ! 0)
     \<in> set (dependsOn_practicing (getMetadata exactOneLockfile)) \<and>
   isOn (exampleRecord (exampleComponent ''/a'' ''TypeScript'' [] []) exactOneLockfile practicing True) \<and>
   (0 :: nat) < 1"
proof -
  let ?cc = "exampleComponent ''/a'' ''TypeScript'' [] []"
  let ?rs = "[exampleRecord ?cc lockfilePresent practicing True,
              exampleRecord ?cc exactOneLockfile practicing True]"
  have d: "distinct (map pid [exactOneLockfile, lockfilePresent])" by (simp add: example_defs)
  have i: "1 < length ?rs" and j: "0 < length ?rs" by simp_all
  have dep: "rid (?rs ! 0) \<in> set (dependsOn_practicing (getMetadata (practice (?rs ! 1))) @
      dependsOn_notPracticing (getMetadata (practice (?rs ! 1))))"
    by (simp add: example_defs)
  have on: "isOn (?rs ! 1) \<or> isOn (?rs ! 0)" by (simp add: example_defs)
  from dependency_record_precedes_dependent [OF d component_dependent_first i j dep on] dep on
  show ?thesis by (simp add: example_defs)
qed

text \<open>
  C7 as stated fails: the records of turned off practices are pushed after the loop, in
  catalog order. With \<open>exact-one-lockfile\<close> registered before \<open>lockfile-present\<close>, which it
  requires, and both turned off, the record of the dependency comes second.
\<close>

theorem dependency_order_counterexample:
  "''lockfile-present'' \<in> set (dependsOn_practicing (getMetadata exactOneLockfile)) \<and>
   map_sum id (map summary)
     (snd (detectPracticesForComponent specScannerUtils [exactOneLockfile, lockfilePresent]
        (exampleComponent ''/web'' ''JavaScript'' [''exact-one-lockfile'', ''lockfile-present''] []))) =
     Inr [(''exact-one-lockfile'', ''/web'', unknown, False),
          (''lockfile-present'', ''/web'', unknown, False)]"
  by (simp add: example_defs)

end
